theory Spec2Isabelle
  imports Complex_Main "HOL-Library.Multiset"
begin

section \<open>Python values used by gopherdl.py\<close>

text \<open>
  A Python \<open>str\<close> is modelled as a \<open>string\<close>: a list of characters, each a code point
  below 256.  Exceptions are values of the type \<open>error\<close>; a function that may raise
  returns \<open>error + 'a\<close>, with \<open>Inl\<close> for the exception.
\<close>

datatype error =
    IndexError
  | ValueError
  | OSError
  | OverflowError
  | Gaierror
  | TimeoutError
  | ConnectionRefusedError

abbreviation TAB :: char where "TAB \<equiv> CHR 0x09"
abbreviation LF :: char where "LF \<equiv> CHR 0x0A"
abbreviation CR :: char where "CR \<equiv> CHR 0x0D"

text \<open>\<open>s.startswith(p)\<close>, \<open>s.endswith(p)\<close> and \<open>sub in s\<close>.\<close>

fun startswith :: "string \<Rightarrow> string \<Rightarrow> bool" where
  "startswith s [] = True"
| "startswith [] (p # ps) = False"
| "startswith (c # cs) (p # ps) = (c = p \<and> startswith cs ps)"

definition endswith :: "string \<Rightarrow> string \<Rightarrow> bool" where
  "endswith s p = startswith (rev s) (rev p)"

fun contains :: "string \<Rightarrow> string \<Rightarrow> bool" where
  "contains sub [] = (sub = [])"
| "contains sub (c # cs) = (startswith (c # cs) sub \<or> contains sub cs)"

text \<open>\<open>s.split(sep)\<close> for a one-character separator, and \<open>sep.join(parts)\<close>.\<close>

fun split_on :: "char \<Rightarrow> string \<Rightarrow> string list" where
  "split_on sep [] = [[]]"
| "split_on sep (c # cs) =
     (if c = sep then [] # split_on sep cs
      else (case split_on sep cs of [] \<Rightarrow> [[c]] | w # ws \<Rightarrow> (c # w) # ws))"

fun join_with :: "string \<Rightarrow> string list \<Rightarrow> string" where
  "join_with sep [] = []"
| "join_with sep [x] = x"
| "join_with sep (x # y # ys) = x @ sep @ join_with sep (y # ys)"

text \<open>
  \<open>s.strip()\<close> removes leading and trailing whitespace; among the code points below 256
  Python counts as whitespace 0x09 to 0x0D, 0x1C to 0x20, 0x85 and 0xA0.
  \<open>s.strip("/")\<close> removes leading and trailing slashes.
\<close>

definition is_space :: "char \<Rightarrow> bool" where
  "is_space c = (c \<in> set [CHR 0x09, CHR 0x0A, CHR 0x0B, CHR 0x0C, CHR 0x0D,
                          CHR 0x1C, CHR 0x1D, CHR 0x1E, CHR 0x1F, CHR 0x20,
                          CHR 0x85, CHR 0xA0])"

definition strip_chars :: "(char \<Rightarrow> bool) \<Rightarrow> string \<Rightarrow> string" where
  "strip_chars p s = rev (dropWhile p (rev (dropWhile p s)))"

definition strip :: "string \<Rightarrow> string" where
  "strip s = strip_chars is_space s"

definition strip_slash :: "string \<Rightarrow> string" where
  "strip_slash s = strip_chars (\<lambda>c. c = CHR ''/'') s"

text \<open>\<open>xs[i]\<close> for a non-negative index: out of range raises IndexError.\<close>

definition index :: "'a list \<Rightarrow> nat \<Rightarrow> error + 'a" where
  "index xs i = (if i < length xs then Inr (xs ! i) else Inl IndexError)"

text \<open>
  \<open>int(s)\<close> in base 10: surrounding whitespace is ignored (for \<open>int\<close> the code
  points 0x1C to 0x1F do not count as whitespace), then an optional sign, then decimal
  digits in which single underscores may separate digits.  Anything else raises
  ValueError, and so does a literal with more digits than the interpreter's limit
  (\<open>sys.get_int_max_str_digits()\<close>, 4300 unless configured, 0 for no limit), which is the
  first argument.
\<close>

definition is_int_space :: "char \<Rightarrow> bool" where
  "is_int_space c = (c \<in> set [CHR 0x09, CHR 0x0A, CHR 0x0B, CHR 0x0C, CHR 0x0D,
                              CHR 0x20, CHR 0x85, CHR 0xA0])"

definition is_digit :: "char \<Rightarrow> bool" where
  "is_digit c = (48 \<le> (of_char c :: nat) \<and> (of_char c :: nat) \<le> 57)"

definition digit_val :: "char \<Rightarrow> nat" where
  "digit_val c = of_char c - 48"

fun parse_digits :: "nat \<Rightarrow> string \<Rightarrow> nat option" where
  "parse_digits acc [] = Some acc"
| "parse_digits acc [c] =
     (if is_digit c then Some (10 * acc + digit_val c) else None)"
| "parse_digits acc (c # d # ds) =
     (if is_digit c then parse_digits (10 * acc + digit_val c) (d # ds)
      else if c = CHR ''_'' \<and> is_digit d then parse_digits (10 * acc + digit_val d) ds
      else None)"

definition py_int :: "nat \<Rightarrow> string \<Rightarrow> error + int" where
  "py_int max_str_digits s =
     (let t = strip_chars is_int_space s;
          (sign, body) = (case t of
              [] \<Rightarrow> (1, [])
            | c # cs \<Rightarrow> if c = CHR ''+'' then (1, cs)
                        else if c = CHR ''-'' then (- 1, cs) else (1, t))
      in case body of
           [] \<Rightarrow> Inl ValueError
         | c # cs \<Rightarrow>
             if is_digit c
             then (case parse_digits (digit_val c) cs of
                     None \<Rightarrow> Inl ValueError
                   | Some n \<Rightarrow>
                       if 0 < max_str_digits \<and> max_str_digits < length (filter is_digit body)
                       then Inl ValueError
                       else Inr (sign * int n))
             else Inl ValueError)"

section \<open>The functions of os.path (posixpath) that the program calls\<close>

text \<open>
  \<open>os.path.join\<close>: a later component that starts with a slash replaces what came before;
  otherwise components are appended, with one slash inserted unless the path so far is
  empty or already ends in a slash.
\<close>

definition join :: "string \<Rightarrow> string \<Rightarrow> string" where
  "join a b =
     (if startswith b ''/'' then b
      else if a = [] \<or> endswith a ''/'' then a @ b
      else a @ ''/'' @ b)"

definition join_many :: "string list \<Rightarrow> string" where
  "join_many ps = (case ps of [] \<Rightarrow> [] | a # rest \<Rightarrow> foldl join a rest)"

text \<open>\<open>os.path.normpath\<close>; the loop over the components is \<open>norm_comps\<close>.\<close>

fun norm_comps :: "bool \<Rightarrow> string list \<Rightarrow> string list \<Rightarrow> string list" where
  "norm_comps initial_slashes new_comps [] = new_comps"
| "norm_comps initial_slashes new_comps (seg # comps) =
     (if seg = [] \<or> seg = ''.'' then norm_comps initial_slashes new_comps comps
      else if seg \<noteq> ''..'' \<or> (\<not> initial_slashes \<and> new_comps = [])
              \<or> (new_comps \<noteq> [] \<and> last new_comps = ''..'')
           then norm_comps initial_slashes (new_comps @ [seg]) comps
      else if new_comps \<noteq> [] then norm_comps initial_slashes (butlast new_comps) comps
      else norm_comps initial_slashes new_comps comps)"

definition normpath :: "string \<Rightarrow> string" where
  "normpath p =
     (if p = [] then ''.''
      else
        let initial_slashes :: nat =
              (if startswith p ''/''
               then (if startswith p ''//'' \<and> \<not> startswith p ''///'' then 2 else 1)
               else 0);
            comps = norm_comps (initial_slashes \<noteq> 0) [] (split_on (CHR ''/'') p);
            q = replicate initial_slashes (CHR ''/'') @ join_with ''/'' comps
        in if q = [] then ''.'' else q)"

text \<open>
  \<open>os.path.abspath\<close> reads the process's working directory, which is a parameter here.
\<close>

definition abspath :: "string \<Rightarrow> string \<Rightarrow> string" where
  "abspath cwd p = normpath (if startswith p ''/'' then p else join cwd p)"

text \<open>
  \<open>os.path.commonprefix\<close> of two lists of components is their longest common prefix.
\<close>

fun commonprefix :: "string list \<Rightarrow> string list \<Rightarrow> string list" where
  "commonprefix (x # xs) (y # ys) = (if x = y then x # commonprefix xs ys else [])"
| "commonprefix xs ys = []"

text \<open>
  \<open>os.path.relpath(path)\<close> with the default start, the working directory.  An empty path
  raises ValueError.
\<close>

definition relpath :: "string \<Rightarrow> string \<Rightarrow> error + string" where
  "relpath cwd p =
     (if p = [] then Inl ValueError
      else
        let start_list = filter (\<lambda>x. x \<noteq> []) (split_on (CHR ''/'') (abspath cwd ''.''));
            path_list = filter (\<lambda>x. x \<noteq> []) (split_on (CHR ''/'') (abspath cwd p));
            i = length (commonprefix start_list path_list);
            rel_list = replicate (length start_list - i) ''..'' @ drop i path_list
        in if rel_list = [] then Inr ''.'' else Inr (join_many rel_list))"

text \<open>\<open>os.path.dirname\<close>: everything up to the last slash, without trailing slashes
  unless it consists of slashes only.\<close>

definition dirname :: "string \<Rightarrow> string" where
  "dirname p =
     (let head = rev (dropWhile (\<lambda>c. c \<noteq> CHR ''/'') (rev p))
      in if head \<noteq> [] \<and> head \<noteq> replicate (length head) (CHR ''/'')
         then rev (dropWhile (\<lambda>c. c = CHR ''/'') (rev head))
         else head)"

section \<open>GopherURL\<close>

record GopherURL =
  type :: string
  gtext :: string
  path :: string
  host :: string
  port :: int

definition invalid_types :: "string list" where
  "invalid_types = [''7'', ''2'', ''3'', ''8'', ''T'']"

definition is_menu :: "GopherURL \<Rightarrow> bool" where
  "is_menu g = (type g = ''1'')"

definition to_url_path :: "GopherURL \<Rightarrow> string" where
  "to_url_path g =
     (let parts = split_on (CHR ''/'') (strip_slash (path g));
          outfile = join (host g) (join_with ''/'' parts)
      in outfile)"

definition to_file_path :: "GopherURL \<Rightarrow> string" where
  "to_file_path g =
     (let outfile = to_url_path g
      in if is_menu g then join outfile ''gophermap'' else outfile)"

text \<open>\<open>__eq__\<close> compares host and path; \<open>__hash__\<close> hashes the storage path with the
  interpreter's string hash, a parameter.\<close>

definition gurl_eq :: "GopherURL \<Rightarrow> GopherURL \<Rightarrow> bool" where
  "gurl_eq a b = (let samehost = (host a = host b); samepath = (path a = path b)
                  in samehost \<and> samepath)"

definition gurl_hash :: "(string \<Rightarrow> int) \<Rightarrow> GopherURL \<Rightarrow> int" where
  "gurl_hash h g = h (to_file_path g)"


section \<open>Python floats\<close>

text \<open>
  A Python float is an IEEE 754 double.  A finite double is \<open>Finite m e\<close>, the number
  \<open>m * 2 ^ e\<close>; the operations return it with \<open>m\<close> odd, and zero as \<open>Finite 0 0\<close> (the
  sign of zero, which no operation below observes, is not kept).  \<open>round_double m e\<close> is
  the double nearest to \<open>m * 2 ^ e\<close>, ties to the even mantissa, with 53 bits of mantissa,
  gradual underflow below \<open>2 ^ - 1022\<close> and overflow to infinity from \<open>2 ^ 1024\<close>.
\<close>

datatype pyfloat = Finite int int | PosInf | NegInf | NaN

function bit_length :: "int \<Rightarrow> int" where
  "bit_length n = (if n \<le> 0 then 0 else 1 + bit_length (n div 2))"
  by pat_completeness auto
termination
  by (relation "measure nat") auto

function normal_form :: "int \<Rightarrow> int \<Rightarrow> pyfloat" where
  "normal_form m e =
     (if m = 0 then Finite 0 0
      else if even m then normal_form (m div 2) (e + 1)
      else Finite m e)"
  by pat_completeness auto
termination
  by (relation "measure (\<lambda>(m, e). nat \<bar>m\<bar>)") auto

definition shift_left :: "int \<Rightarrow> int \<Rightarrow> int" where
  "shift_left m k = m * 2 ^ nat k"

definition round_double :: "int \<Rightarrow> int \<Rightarrow> pyfloat" where
  "round_double m e =
     (if m = 0 then Finite 0 0
      else
        let a = \<bar>m\<bar>;
            p = max (bit_length a - 1 + e) (- 1022) - 52;
            s = p - e;
            q = (if s \<le> 0 then shift_left a (- s)
                 else
                   let d = a div 2 ^ nat s; r = a mod 2 ^ nat s; half = 2 ^ nat (s - 1)
                   in if half < r \<or> (r = half \<and> odd d) then d + 1 else d)
        in if 1024 < bit_length q + p then (if 0 < m then PosInf else NegInf)
           else normal_form (if 0 < m then q else - q) p)"

text \<open>\<open>a + b\<close>, \<open>a / 4\<close>, \<open>a * n\<close> for an integer \<open>n\<close> that is itself a double, and
  \<open>a != 0\<close>.\<close>

definition float_add :: "pyfloat \<Rightarrow> pyfloat \<Rightarrow> pyfloat" where
  "float_add a b =
     (case a of
        NaN \<Rightarrow> NaN
      | PosInf \<Rightarrow> (case b of NaN \<Rightarrow> NaN | NegInf \<Rightarrow> NaN | _ \<Rightarrow> PosInf)
      | NegInf \<Rightarrow> (case b of NaN \<Rightarrow> NaN | PosInf \<Rightarrow> NaN | _ \<Rightarrow> NegInf)
      | Finite m1 e1 \<Rightarrow>
          (case b of
             Finite m2 e2 \<Rightarrow>
               let e = min e1 e2
               in round_double (shift_left m1 (e1 - e) + shift_left m2 (e2 - e)) e
           | _ \<Rightarrow> b))"

definition float_div_4 :: "pyfloat \<Rightarrow> pyfloat" where
  "float_div_4 a = (case a of Finite m e \<Rightarrow> round_double m (e - 2) | _ \<Rightarrow> a)"

definition float_mul_int :: "pyfloat \<Rightarrow> int \<Rightarrow> pyfloat" where
  "float_mul_int a n = (case a of Finite m e \<Rightarrow> round_double (m * n) e | _ \<Rightarrow> a)"

definition is_zero :: "pyfloat \<Rightarrow> bool" where
  "is_zero a = (case a of Finite m e \<Rightarrow> m = 0 | _ \<Rightarrow> False)"

text \<open>Rounding \<open>m * 2 ^ e\<close> to an integer, away from zero.\<close>

definition round_up :: "int \<Rightarrow> int \<Rightarrow> int" where
  "round_up m e =
     (if 0 \<le> e then shift_left m e
      else if 0 \<le> m then - ((- m) div 2 ^ nat (- e))
      else m div 2 ^ nat (- e))"

section \<open>Configuration and the environment of a run\<close>

text \<open>
  \<open>Config\<close>: \<open>maxdepth\<close> is \<open>None\<close> for \<open>math.inf\<close>; a compiled regular expression is
  represented by its \<open>fullmatch\<close> predicate.
\<close>

record Config =
  recursive :: bool
  maxdepth :: "int option"
  spanhosts :: bool
  helpme :: bool
  clobber :: bool
  only_save_menu :: bool
  no_save_menu :: bool
  ascend_parents :: bool
  delay :: pyfloat
  debug :: bool
  accept_regex :: "(string \<Rightarrow> bool) option"
  reject_regex :: "(string \<Rightarrow> bool) option"
  regex_on_menus :: bool
  archive_directory :: string

text \<open>
  What the program reads from outside itself is collected in a \<open>world\<close>:
  \<^item> \<open>getcwd\<close>: the working directory of the process, as \<open>os.getcwd()\<close> returns it;
  \<^item> \<open>str_hash\<close>: the interpreter's hash of a string;
  \<^item> \<open>set_order\<close>: the order in which the interpreter iterates over a set, given its
    members in insertion order;
  \<^item> \<open>files\<close>: the file system: what is at an absolute path without \<open>.\<close>, \<open>..\<close> or
    repeated slashes (symbolic links and permissions are not modelled);
  \<^item> \<open>net\<close>: for a resource and the number of connection attempts already failed during
    one download, what the next attempt does: the bytes received until the peer closes,
    or the exception raised;
  \<^item> \<open>decode_utf8\<close>: \<open>bytes.decode("utf-8", errors="ignore")\<close>;
  \<^item> \<open>int_max_str_digits\<close>: the interpreter's limit on the digits of an integer literal;
  \<^item> \<open>nanosleep_ok\<close>: whether the operating system accepts a sleep of that many
    nanoseconds.
  Bytes are modelled as strings.
\<close>

datatype node = File string | Dir

record world =
  getcwd :: string
  str_hash :: "string \<Rightarrow> int"
  set_order :: "GopherURL list \<Rightarrow> GopherURL list"
  files :: "string \<Rightarrow> node option"
  net :: "GopherURL \<Rightarrow> nat \<Rightarrow> error + string"
  decode_utf8 :: "string \<Rightarrow> string"
  int_max_str_digits :: nat
  nanosleep_ok :: "int \<Rightarrow> bool"

section \<open>GopherURL.valid\<close>

definition valid :: "world \<Rightarrow> GopherURL \<Rightarrow> error + bool" where
  "valid w g =
     (if length (path g) = 0 then Inr False
      else if port g \<le> 0 then Inr False
      else if type g \<in> set invalid_types then Inr False
      else if contains ''URL:'' (path g) then Inr False
      else case relpath (getcwd w) (to_file_path g) of
             Inl e \<Rightarrow> Inl e
           | Inr file_path \<Rightarrow>
               let in_download_dir = startswith file_path (host g)
               in if \<not> in_download_dir then Inr False else Inr True)"

section \<open>GopherURL.download\<close>

text \<open>
  \<open>time.sleep(d)\<close>: NaN raises ValueError; the delay is converted to nanoseconds
  (\<open>d * 1e9\<close>, rounded away from zero to an integer), which raises OverflowError outside
  the range of a signed 64-bit integer; a negative delay raises ValueError; a sleep that
  the operating system refuses raises OSError.
\<close>

definition time_sleep :: "world \<Rightarrow> pyfloat \<Rightarrow> error + unit" where
  "time_sleep w d =
     (case d of
        NaN \<Rightarrow> Inl ValueError
      | Finite m e \<Rightarrow>
          (case float_mul_int d (10 ^ 9) of
             Finite m' e' \<Rightarrow>
               let ns = round_up m' e' in
               if \<not> (- (2 ^ 63) \<le> ns \<and> ns < 2 ^ 63) then Inl OverflowError
               else if ns < 0 then Inl ValueError
               else if nanosleep_ok w ns then Inr () else Inl OSError
           | _ \<Rightarrow> Inl OverflowError)
      | _ \<Rightarrow> Inl OverflowError)"

text \<open>
  The retry loop.  \<open>attempt k\<close> is the outcome of the connection attempt made after \<open>k\<close>
  failures.  The second component of the result lists the delays slept, in order.
  Leaving the loop by \<open>break\<close> ends the function without a return statement: the result
  is \<open>None\<close>.
\<close>

definition next_delay :: "pyfloat \<Rightarrow> pyfloat" where
  "next_delay d = (if \<not> is_zero d then float_add d (float_div_4 d) else Finite 1 0)"

function download_loop ::
  "(pyfloat \<Rightarrow> error + unit) \<Rightarrow> (nat \<Rightarrow> error + string) \<Rightarrow> pyfloat \<Rightarrow> nat \<Rightarrow> pyfloat list
     \<Rightarrow> (error + string option) \<times> pyfloat list"
where
  "download_loop sleep attempt d retries slept =
     (case sleep d of
        Inl e \<Rightarrow> (Inl e, slept)
      | Inr u \<Rightarrow>
          (case attempt retries of
             Inr buffer \<Rightarrow> (Inr (Some buffer), slept @ [d])
           | Inl e \<Rightarrow>
               if e \<in> set [Gaierror, TimeoutError, ConnectionRefusedError]
               then if retries + 1 > 3 then (Inr None, slept @ [d])
                    else download_loop sleep attempt (next_delay d) (retries + 1) (slept @ [d])
               else (Inl e, slept @ [d])))"
  by pat_completeness auto
termination
  by (relation "measure (\<lambda>(sleep, attempt, d, retries, slept). 4 - retries)") auto

definition download ::
  "world \<Rightarrow> GopherURL \<Rightarrow> pyfloat \<Rightarrow> (error + string option) \<times> pyfloat list" where
  "download w g d = download_loop (time_sleep w) (net w g) d 0 []"

section \<open>to_url and the scope filter\<close>

definition uses_netloc :: "string list" where
  "uses_netloc = ['''', ''ftp'', ''http'', ''gopher'', ''nntp'', ''telnet'',
                  ''imap'', ''wais'', ''file'', ''mms'', ''https'', ''shttp'',
                  ''snews'', ''prospero'', ''rtsp'', ''rtsps'', ''rtspu'', ''rsync'',
                  ''svn'', ''svn+ssh'', ''sftp'', ''nfs'', ''git'', ''git+ssh'',
                  ''ws'', ''wss'']"

definition urlunsplit :: "string \<Rightarrow> string \<Rightarrow> string \<Rightarrow> string \<Rightarrow> string \<Rightarrow> string" where
  "urlunsplit scheme netloc url query fragment =
     (let url1 = (if netloc \<noteq> [] \<or> (scheme \<noteq> [] \<and> scheme \<in> set uses_netloc)
                     \<or> take 2 url = ''//''
                  then ''//'' @ netloc
                       @ (if url \<noteq> [] \<and> take 1 url \<noteq> ''/'' then ''/'' @ url else url)
                  else url);
          url2 = (if scheme \<noteq> [] then scheme @ '':'' @ url1 else url1);
          url3 = (if query \<noteq> [] then url2 @ ''?'' @ query else url2);
          url4 = (if fragment \<noteq> [] then url3 @ ''#'' @ fragment else url3)
      in url4)"

definition urlunparse ::
  "string \<Rightarrow> string \<Rightarrow> string \<Rightarrow> string \<Rightarrow> string \<Rightarrow> string \<Rightarrow> string" where
  "urlunparse scheme netloc url params query fragment =
     urlunsplit scheme netloc (if params \<noteq> [] then url @ '';'' @ params else url)
       query fragment"

definition to_url :: "GopherURL \<Rightarrow> string" where
  "to_url g =
     (let path_parts = split_on (CHR ''?'') (path g);
          (p, query) = (if length path_parts = 1 then (path g, [])
                        else (hd path_parts, join_with ''?'' (tl path_parts)))
      in urlunparse ''gopher'' (host g) p query [] [])"

definition gurl_ok_by_config :: "Config \<Rightarrow> GopherURL \<Rightarrow> GopherURL \<Rightarrow> bool" where
  "gurl_ok_by_config config root_gurl link =
     (let on_different_host = (host root_gurl \<noteq> host link) in
      if \<not> spanhosts config \<and> on_different_host then False
      else
        let off_original_path = \<not> startswith (path link) (path root_gurl) in
        if \<not> ascend_parents config \<and> off_original_path then False
        else if \<not> regex_on_menus config \<and> is_menu link then True
        else
          let url = to_url link in
          if (case reject_regex config of None \<Rightarrow> False | Some fullmatch \<Rightarrow> fullmatch url)
          then False
          else (case accept_regex config of
                  None \<Rightarrow> True
                | Some fullmatch \<Rightarrow> fullmatch url))"

section \<open>getlinks\<close>

text \<open>
  The body of the loop for one line: \<open>Inr (Some url)\<close> appends \<open>url\<close>, \<open>Inr None\<close> is a
  \<open>continue\<close>, \<open>Inl e\<close> an exception raised inside the \<open>try\<close>.
\<close>

definition parse_line :: "world \<Rightarrow> string \<Rightarrow> error + GopherURL option" where
  "parse_line w line =
     (let tokens = split_on TAB (strip line) in
      case index tokens 0 of Inl e \<Rightarrow> Inl e | Inr t0 \<Rightarrow>
      case index t0 0 of Inl e \<Rightarrow> Inl e | Inr c \<Rightarrow>
        let typ = [c] in
        if typ \<in> set [''i''] then Inr None
        else
          let label = drop 1 t0 in
          case index tokens 1 of Inl e \<Rightarrow> Inl e | Inr t1 \<Rightarrow>
          case index tokens 2 of Inl e \<Rightarrow> Inl e | Inr t2 \<Rightarrow>
          case index tokens 3 of Inl e \<Rightarrow> Inl e | Inr t3 \<Rightarrow>
          case py_int (int_max_str_digits w) (strip t3) of Inl e \<Rightarrow> Inl e | Inr n \<Rightarrow>
            let url = \<lparr>type = typ, gtext = label, path = strip t1, host = strip t2, port = n\<rparr>
            in case valid w url of
                 Inl e \<Rightarrow> Inl e
               | Inr ok \<Rightarrow> if \<not> ok then Inr None else Inr (Some url))"

text \<open>
  The loop over the lines: IndexError and ValueError are caught and the loop goes on;
  any other exception would leave \<open>getlinks\<close>.
\<close>

fun getlinks_loop :: "world \<Rightarrow> GopherURL list \<Rightarrow> string list \<Rightarrow> error + GopherURL list" where
  "getlinks_loop w urls [] = Inr urls"
| "getlinks_loop w urls (line # rest) =
     (case parse_line w line of
        Inr (Some url) \<Rightarrow> getlinks_loop w (urls @ [url]) rest
      | Inr None \<Rightarrow> getlinks_loop w urls rest
      | Inl e \<Rightarrow>
          if e = IndexError then getlinks_loop w urls rest
          else if e = ValueError then getlinks_loop w urls rest
          else Inl e)"

definition getlinks :: "world \<Rightarrow> string \<Rightarrow> error + GopherURL list" where
  "getlinks w menucontent = getlinks_loop w [] (split_on LF menucontent)"

section \<open>The file system: mkdirs, slurp, write_gopherurl\<close>

text \<open>
  A location is the list of names from the root directory; \<open>abs_key\<close> is its absolute
  path.  \<open>walk\<close> follows the components of a path from a location, as the operating
  system does: every component is looked up in a directory that exists, \<open>..\<close> is the parent
  of the directory reached so far.  A relative path starts at the working directory.
\<close>

definition abs_key :: "string list \<Rightarrow> string" where
  "abs_key loc = ''/'' @ join_with ''/'' loc"

fun walk :: "world \<Rightarrow> string list \<Rightarrow> string list \<Rightarrow> string list option" where
  "walk w cur [] = Some cur"
| "walk w cur (c # cs) =
     (if files w (abs_key cur) \<noteq> Some Dir then None
      else if c = [] \<or> c = ''.'' then walk w cur cs
      else if c = ''..'' then walk w (butlast cur) cs
      else walk w (cur @ [c]) cs)"

definition path_start :: "world \<Rightarrow> string \<Rightarrow> string list" where
  "path_start w p =
     (if startswith p ''/'' then []
      else filter (\<lambda>x. x \<noteq> []) (split_on (CHR ''/'') (getcwd w)))"

definition resolve :: "world \<Rightarrow> string \<Rightarrow> string list option" where
  "resolve w p =
     (if p = [] then None else walk w (path_start w p) (split_on (CHR ''/'') p))"

definition path_exists :: "world \<Rightarrow> string \<Rightarrow> bool" where
  "path_exists w p =
     (case resolve w p of None \<Rightarrow> False | Some loc \<Rightarrow> files w (abs_key loc) \<noteq> None)"

definition slurp :: "world \<Rightarrow> string \<Rightarrow> error + string" where
  "slurp w p =
     (case resolve w p of
        None \<Rightarrow> Inl OSError
      | Some loc \<Rightarrow>
          (case files w (abs_key loc) of
             Some (File content) \<Rightarrow> Inr content
           | _ \<Rightarrow> Inl OSError))"

text \<open>\<open>os.mkdir\<close>: trailing slashes are ignored; the parent must be a directory and the
  name must not exist.\<close>

definition mkdir :: "world \<Rightarrow> string \<Rightarrow> error + world" where
  "mkdir w p =
     (let comps = rev (dropWhile (\<lambda>c. c = []) (rev (split_on (CHR ''/'') p))) in
      if comps = [] then Inl OSError
      else
        let name = last comps in
        if name = ''.'' \<or> name = ''..'' then Inl OSError
        else
          case walk w (path_start w p) (butlast comps) of
            None \<Rightarrow> Inl OSError
          | Some loc \<Rightarrow>
              if files w (abs_key loc) \<noteq> Some Dir then Inl OSError
              else if files w (abs_key (loc @ [name])) \<noteq> None then Inl OSError
              else Inr (w\<lparr>files := (files w)(abs_key (loc @ [name]) \<mapsto> Dir)\<rparr>))"

fun mkdirs_loop :: "world \<Rightarrow> string \<Rightarrow> string list \<Rightarrow> error + world" where
  "mkdirs_loop w cd [] = Inr w"
| "mkdirs_loop w cd (p # ps) =
     (let cd' = join cd p in
      if \<not> path_exists w cd'
      then (case mkdir w cd' of Inl e \<Rightarrow> Inl e | Inr w' \<Rightarrow> mkdirs_loop w' cd' ps)
      else mkdirs_loop w cd' ps)"

definition mkdirs :: "world \<Rightarrow> string \<Rightarrow> error + world" where
  "mkdirs w p = mkdirs_loop w [] (split_on (CHR ''/'') p)"

text \<open>\<open>open(outfile, "wb")\<close> followed by \<open>write(content)\<close>: the parent must be a
  directory and the name must not be one.\<close>

definition open_write :: "world \<Rightarrow> string \<Rightarrow> string \<Rightarrow> error + world" where
  "open_write w p content =
     (let comps = split_on (CHR ''/'') p; name = last comps in
      if p = [] \<or> name = [] \<or> name = ''.'' \<or> name = ''..'' then Inl OSError
      else
        case walk w (path_start w p) (butlast comps) of
          None \<Rightarrow> Inl OSError
        | Some loc \<Rightarrow>
            if files w (abs_key loc) \<noteq> Some Dir then Inl OSError
            else if files w (abs_key (loc @ [name])) = Some Dir then Inl OSError
            else Inr (w\<lparr>files := (files w)(abs_key (loc @ [name]) \<mapsto> File content)\<rparr>))"

definition write_gopherurl :: "world \<Rightarrow> GopherURL \<Rightarrow> Config \<Rightarrow> string option \<Rightarrow> error + world" where
  "write_gopherurl w gurl config content =
     (let outfile = join (archive_directory config) (to_file_path gurl) in
      if path_exists w outfile \<and> \<not> clobber config then Inr w
      else
        case mkdirs w (dirname outfile) of
          Inl e \<Rightarrow> Inl e
        | Inr w1 \<Rightarrow>
            (case (if content \<noteq> None then Inr content
                   else fst (download w1 gurl (delay config))) of
               Inl e \<Rightarrow> Inl e
             | Inr None \<Rightarrow> Inr w1
             | Inr (Some bytes) \<Rightarrow>
                 if bytes \<noteq> [] then open_write w1 outfile bytes else Inr w1))"

section \<open>crawl\<close>

definition retrieve_menu_content :: "world \<Rightarrow> Config \<Rightarrow> GopherURL \<Rightarrow> error + string option" where
  "retrieve_menu_content w config gurl =
     (let p = to_file_path gurl in
      if path_exists w p \<and> \<not> clobber config
      then (case slurp w p of
              Inl e \<Rightarrow> Inl e
            | Inr content \<Rightarrow> Inr (Some (decode_utf8 w content)))
      else (case fst (download w gurl (delay config)) of
              Inl e \<Rightarrow> if e \<in> set [Gaierror, TimeoutError] then Inr None else Inl e
            | Inr None \<Rightarrow> Inr None
            | Inr (Some content) \<Rightarrow> Inr (Some (decode_utf8 w content))))"

definition gopher_urls_from_menu_link ::
  "world \<Rightarrow> Config \<Rightarrow> GopherURL \<Rightarrow> GopherURL \<Rightarrow> error + GopherURL list" where
  "gopher_urls_from_menu_link w config root_gurl menu_gurl =
     (case retrieve_menu_content w config menu_gurl of
        Inl e \<Rightarrow> Inl e
      | Inr None \<Rightarrow> Inr []
      | Inr (Some menu_content) \<Rightarrow>
          (case getlinks w menu_content of
             Inl e \<Rightarrow> Inl e
           | Inr gurls \<Rightarrow> Inr (filter (gurl_ok_by_config config root_gurl) gurls)))"

definition get_menus :: "GopherURL list \<Rightarrow> GopherURL list" where
  "get_menus gurls = filter is_menu gurls"

definition get_files :: "GopherURL list \<Rightarrow> GopherURL list" where
  "get_files gurls = filter (\<lambda>g. \<not> is_menu g) gurls"

text \<open>
  A Python set of GopherURL is modelled by the list of its members in insertion order.
  A set holds no two members with the same hash that are also \<open>==\<close>; adding such an
  object leaves the set unchanged.
\<close>

definition same_member :: "world \<Rightarrow> GopherURL \<Rightarrow> GopherURL \<Rightarrow> bool" where
  "same_member w a b = (gurl_hash (str_hash w) a = gurl_hash (str_hash w) b \<and> gurl_eq a b)"

definition set_contains :: "world \<Rightarrow> GopherURL list \<Rightarrow> GopherURL \<Rightarrow> bool" where
  "set_contains w s x = list_ex (\<lambda>y. same_member w y x) s"

definition set_add :: "world \<Rightarrow> GopherURL list \<Rightarrow> GopherURL \<Rightarrow> GopherURL list" where
  "set_add w s x = (if set_contains w s x then s else s @ [x])"

definition py_set :: "world \<Rightarrow> GopherURL list \<Rightarrow> GopherURL list" where
  "py_set w xs = foldl (set_add w) [] xs"

definition set_difference :: "world \<Rightarrow> GopherURL list \<Rightarrow> GopherURL list \<Rightarrow> GopherURL list" where
  "set_difference w a b = filter (\<lambda>x. \<not> set_contains w b x) a"

definition set_update :: "world \<Rightarrow> GopherURL list \<Rightarrow> GopherURL list \<Rightarrow> GopherURL list" where
  "set_update w s xs = foldl (set_add w) s xs"

definition depth_exceeds :: "nat \<Rightarrow> int option \<Rightarrow> bool" where
  "depth_exceeds depth m = (case m of None \<Rightarrow> False | Some n \<Rightarrow> int depth > n)"

text \<open>
  The \<open>for menu in menus\<close> loop.  \<open>menus\<close> is the part of the worklist not yet
  iterated over; the loop appends to it.  The loop runs as long as the worklist grows, so
  the model takes fuel and returns \<open>None\<close> when it runs out.  The last argument records,
  in order, the resources passed to \<open>gopher_urls_from_menu_link\<close>; it is returned next
  to \<open>gurls\<close>.
\<close>

fun crawl_loop ::
  "nat \<Rightarrow> world \<Rightarrow> Config \<Rightarrow> GopherURL \<Rightarrow> GopherURL list \<Rightarrow> GopherURL list \<Rightarrow> nat
     \<Rightarrow> GopherURL list \<Rightarrow> (error + GopherURL list \<times> GopherURL list) option"
where
  "crawl_loop 0 w config root_gurl gurls menus depth expanded = None"
| "crawl_loop (Suc fuel) w config root_gurl gurls [] depth expanded =
     Some (Inr (gurls, expanded))"
| "crawl_loop (Suc fuel) w config root_gurl gurls (menu # rest) depth expanded =
     (if depth_exceeds depth (maxdepth config) then Some (Inr (gurls, expanded))
      else
        case gopher_urls_from_menu_link w config root_gurl menu of
          Inl e \<Rightarrow> Some (Inl e)
        | Inr links \<Rightarrow>
            let new_gurls = py_set w links;
                new_unique_gurls = set_difference w new_gurls gurls;
                gurls' = set_update w gurls new_unique_gurls;
                new_unique_gurls_menus = get_menus (set_order w new_unique_gurls)
            in crawl_loop fuel w config root_gurl gurls' (rest @ new_unique_gurls_menus)
                 (depth + 1) (expanded @ [menu]))"

definition crawl ::
  "nat \<Rightarrow> world \<Rightarrow> Config \<Rightarrow> GopherURL
     \<Rightarrow> (error + GopherURL list \<times> GopherURL list) option" where
  "crawl fuel w config root_gurl =
     (case gopher_urls_from_menu_link w config root_gurl root_gurl of
        Inl e \<Rightarrow> Some (Inl e)
      | Inr links \<Rightarrow>
          let gurls = py_set w links;
              menus = set_order w (py_set w (get_menus (set_order w gurls))) @ [root_gurl]
          in crawl_loop fuel w config root_gurl gurls menus 0 [root_gurl])"

section \<open>Notions used to state the properties\<close>

text \<open>
  The identity of a member of a set of GopherURL: the hash of its storage path together
  with the two fields that \<open>__eq__\<close> compares.
\<close>

definition key :: "world \<Rightarrow> GopherURL \<Rightarrow> int \<times> string \<times> string" where
  "key w g = (gurl_hash (str_hash w) g, host g, path g)"

text \<open>The delays slept by the first \<open>n\<close> connection attempts, starting from delay \<open>d\<close>.\<close>

definition backoff :: "pyfloat \<Rightarrow> nat \<Rightarrow> pyfloat list" where
  "backoff d n = map (\<lambda>i. (next_delay ^^ i) d) [0..<n]"

section \<open>Example inputs\<close>

text \<open>The configuration built from the command line \<open>-r\<close>, and the root of
  \<open>gopher://example.org/\<close>.\<close>

definition default_config :: Config where
  "default_config =
     \<lparr>recursive = True, maxdepth = None, spanhosts = False, helpme = False,
      clobber = False, only_save_menu = False, no_save_menu = False,
      ascend_parents = False, delay = Finite 0 0, debug = False, accept_regex = None,
      reject_regex = None, regex_on_menus = False, archive_directory = ''./archive/''\<rparr>"

definition example_root :: GopherURL where
  "example_root =
     \<lparr>type = ''1'', gtext = ''[ROOT URL]'', path = ''/'', host = ''example.org'', port = 70\<rparr>"

text \<open>A selector that leaves the directory of its host for a sibling directory.\<close>

definition escape_gurl :: GopherURL where
  "escape_gurl =
     \<lparr>type = ''0'', gtext = ''passwd'', path = ''/../example.org.evil/passwd'',
      host = ''example.org'', port = 70\<rparr>"

text \<open>The regression case of the path containment check.\<close>

definition passwd_gurl :: GopherURL where
  "passwd_gurl =
     \<lparr>type = ''0'', gtext = ''passwd'', path = ''/../../etc/passwd'',
      host = ''example.org'', port = 70\<rparr>"

text \<open>The same selector as a menu and as a file.\<close>

definition x_menu :: GopherURL where
  "x_menu = \<lparr>type = ''1'', gtext = ''x'', path = ''/x'', host = ''h'', port = 70\<rparr>"

definition x_file :: GopherURL where
  "x_file = \<lparr>type = ''0'', gtext = ''x'', path = ''/x'', host = ''h'', port = 70\<rparr>"

text \<open>A world in which every connection attempt times out.\<close>

definition timeout_world :: world where
  "timeout_world =
     \<lparr>getcwd = ''/home/user'', str_hash = (\<lambda>s. int (length s)), set_order = (\<lambda>xs. xs),
      files = [''/'' \<mapsto> Dir, ''/home'' \<mapsto> Dir, ''/home/user'' \<mapsto> Dir], net = (\<lambda>g k. Inl TimeoutError), decode_utf8 = (\<lambda>s. s),
      int_max_str_digits = 4300, nanosleep_ok = (\<lambda>ns. ns \<le> 9223372036 * 10 ^ 9)\<rparr>"

text \<open>Menu lines: type and label, selector, host and port, separated by tabs.\<close>

definition menu_line :: "string \<Rightarrow> string \<Rightarrow> string \<Rightarrow> string \<Rightarrow> string" where
  "menu_line t p h n = t @ [TAB] @ p @ [TAB] @ h @ [TAB] @ n"

definition sub_line :: string where
  "sub_line = menu_line ''1Sub'' ''/sub'' ''example.org'' ''70'' @ [CR]"

definition file_line :: string where
  "file_line = menu_line ''0File'' ''/sub/file.txt'' ''example.org'' ''70'' @ [CR]"

definition bad_line :: string where
  "bad_line = menu_line ''0Bad'' ''/bad'' ''example.org'' ''seventy''"

definition sub_gurl :: GopherURL where
  "sub_gurl =
     \<lparr>type = ''1'', gtext = ''Sub'', path = ''/sub'', host = ''example.org'', port = 70\<rparr>"

definition file_gurl :: GopherURL where
  "file_gurl =
     \<lparr>type = ''0'', gtext = ''File'', path = ''/sub/file.txt'', host = ''example.org'',
      port = 70\<rparr>"

text \<open>A world with an empty archive below \<open>/home/user\<close>, in which every download
  receives the bytes \<open>fetched\<close>.\<close>

definition disk_world :: world where
  "disk_world =
     \<lparr>getcwd = ''/home/user'', str_hash = (\<lambda>s. int (length s)), set_order = (\<lambda>xs. xs),
      files = [''/'' \<mapsto> Dir, ''/home'' \<mapsto> Dir, ''/home/user'' \<mapsto> Dir],
      net = (\<lambda>g k. Inr ''fetched''), decode_utf8 = (\<lambda>s. s),
      int_max_str_digits = 4300, nanosleep_ok = (\<lambda>ns. ns \<le> 9223372036 * 10 ^ 9)\<rparr>"

text \<open>Two small sites on \<open>example.org\<close>.  In both the root menu lists the menu \<open>/sub\<close>
  and a file.  In \<open>tree_world\<close> the menu \<open>/sub\<close> lists one more file; in \<open>cycle_world\<close>
  it also links back to the root.\<close>

definition other_line :: string where
  "other_line = menu_line ''0Other'' ''/sub/o.txt'' ''example.org'' ''70'' @ [CR]"
definition root_line :: string where
  "root_line = menu_line ''1Root'' ''/'' ''example.org'' ''70'' @ [CR]"
definition other_gurl :: GopherURL where
  "other_gurl =
     \<lparr>type = ''0'', gtext = ''Other'', path = ''/sub/o.txt'', host = ''example.org'',
      port = 70\<rparr>"
definition root_link_gurl :: GopherURL where
  "root_link_gurl =
     \<lparr>type = ''1'', gtext = ''Root'', path = ''/'', host = ''example.org'', port = 70\<rparr>"

definition tree_world :: world where
  "tree_world =
     \<lparr>getcwd = ''/home/user'', str_hash = (\<lambda>s. int (length s)), set_order = (\<lambda>xs. xs),
      files = [''/'' \<mapsto> Dir, ''/home'' \<mapsto> Dir, ''/home/user'' \<mapsto> Dir],
      net = (\<lambda>g k. if path g = ''/'' then Inr (join_with [LF] [sub_line, file_line, []])
                    else if path g = ''/sub'' then Inr (join_with [LF] [other_line, []])
                    else Inl ConnectionRefusedError),
      decode_utf8 = (\<lambda>s. s),
      int_max_str_digits = 4300, nanosleep_ok = (\<lambda>ns. ns \<le> 9223372036 * 10 ^ 9)\<rparr>"

definition cycle_world :: world where
  "cycle_world =
     \<lparr>getcwd = ''/home/user'', str_hash = (\<lambda>s. int (length s)), set_order = (\<lambda>xs. xs),
      files = [''/'' \<mapsto> Dir, ''/home'' \<mapsto> Dir, ''/home/user'' \<mapsto> Dir],
      net = (\<lambda>g k. if path g = ''/'' then Inr (join_with [LF] [sub_line, file_line, []])
                    else if path g = ''/sub'' then Inr (join_with [LF] [root_line, other_line, []])
                    else Inl ConnectionRefusedError),
      decode_utf8 = (\<lambda>s. s),
      int_max_str_digits = 4300, nanosleep_ok = (\<lambda>ns. ns \<le> 9223372036 * 10 ^ 9)\<rparr>"

text \<open>The default configuration with \<open>-l 0\<close>.\<close>

definition depth0_config :: Config where
  "depth0_config = default_config\<lparr>maxdepth := Some 0\<rparr>"

section \<open>Menu lines, field by field\<close>

text \<open>
  A line of the menu format: the type character, the label, the selector, the host and
  the port, separated by tabs, followed by trailing whitespace such as a carriage return.
\<close>

record menu_fields =
  f_type :: char
  f_label :: string
  f_selector :: string
  f_host :: string
  f_port :: string
  f_trail :: string

definition render_line :: "menu_fields \<Rightarrow> string" where
  "render_line f =
     menu_line (f_type f # f_label f) (f_selector f) (f_host f) (f_port f) @ f_trail f"

text \<open>The four fields are there, and the line is not informational.\<close>

definition fields_ok :: "menu_fields \<Rightarrow> bool" where
  "fields_ok f =
     (\<not> is_space (f_type f) \<and> f_type f \<noteq> CHR ''i''
      \<and> TAB \<notin> set (f_label f) \<and> TAB \<notin> set (f_selector f) \<and> TAB \<notin> set (f_host f)
      \<and> TAB \<notin> set (f_port f) \<and> f_port f \<noteq> [] \<and> \<not> is_space (last (f_port f))
      \<and> list_all is_space (f_trail f) \<and> LF \<notin> set (render_line f))"

text \<open>The value of a string of decimal digits, and the resource a line describes.\<close>

definition decimal :: "string \<Rightarrow> nat" where
  "decimal s = foldl (\<lambda>acc c. 10 * acc + digit_val c) 0 s"

definition line_url :: "menu_fields \<Rightarrow> GopherURL" where
  "line_url f =
     \<lparr>type = [f_type f], gtext = f_label f, path = strip (f_selector f),
      host = strip (f_host f), port = int (decimal (f_port f))\<rparr>"

text \<open>A well-formed, non-informational, valid line: its port is a string of digits
  (within the interpreter's limit) and its resource passes \<open>valid\<close>.\<close>

definition good_line :: "world \<Rightarrow> menu_fields \<Rightarrow> bool" where
  "good_line w f =
     (fields_ok f \<and> list_all is_digit (f_port f)
      \<and> (int_max_str_digits w = 0 \<or> length (f_port f) \<le> int_max_str_digits w)
      \<and> valid w (line_url f) = Inr True)"

text \<open>The two kinds of malformed line: fewer than four fields, and a port with a
  character that cannot occur in an integer.\<close>

definition missing_fields :: "string \<Rightarrow> bool" where
  "missing_fields l =
     (length (split_on TAB (strip l)) < 4 \<and> (strip l = [] \<or> hd (strip l) \<noteq> CHR ''i''))"

definition bad_port :: "string \<Rightarrow> bool" where
  "bad_port s =
     list_ex (\<lambda>c. \<not> is_digit c \<and> c \<noteq> CHR ''_'' \<and> c \<noteq> CHR ''+'' \<and> c \<noteq> CHR ''-''
                  \<and> \<not> is_space c) s"

definition non_integer_port :: "menu_fields \<Rightarrow> bool" where
  "non_integer_port f = (fields_ok f \<and> bad_port (f_port f))"

text \<open>The lines of the example menus, field by field.\<close>

definition sub_fields :: menu_fields where
  "sub_fields =
     \<lparr>f_type = CHR ''1'', f_label = ''Sub'', f_selector = ''/sub'', f_host = ''example.org'',
      f_port = ''70'', f_trail = [CR]\<rparr>"

definition file_fields :: menu_fields where
  "file_fields =
     \<lparr>f_type = CHR ''0'', f_label = ''File'', f_selector = ''/sub/file.txt'',
      f_host = ''example.org'', f_port = ''70'', f_trail = [CR]\<rparr>"

definition bad_fields :: menu_fields where
  "bad_fields =
     \<lparr>f_type = CHR ''0'', f_label = ''Bad'', f_selector = ''/bad'', f_host = ''example.org'',
      f_port = ''seventy'', f_trail = [CR]\<rparr>"

text \<open>The site of \<open>cycle_world\<close> whose menu \<open>/sub\<close> lists the root both as a menu and as
  a file.\<close>

definition root_file_line :: string where
  "root_file_line = menu_line ''0Root'' ''/'' ''example.org'' ''70'' @ [CR]"

definition root_file_gurl :: GopherURL where
  "root_file_gurl =
     \<lparr>type = ''0'', gtext = ''Root'', path = ''/'', host = ''example.org'', port = 70\<rparr>"

definition twice_world :: world where
  "twice_world =
     \<lparr>getcwd = ''/home/user'', str_hash = (\<lambda>s. int (length s)), set_order = (\<lambda>xs. xs),
      files = [''/'' \<mapsto> Dir, ''/home'' \<mapsto> Dir, ''/home/user'' \<mapsto> Dir],
      net = (\<lambda>g k. if path g = ''/'' then Inr (join_with [LF] [sub_line, file_line, []])
                    else if path g = ''/sub''
                         then Inr (join_with [LF] [root_line, root_file_line, other_line, []])
                    else Inl ConnectionRefusedError),
      decode_utf8 = (\<lambda>s. s),
      int_max_str_digits = 4300, nanosleep_ok = (\<lambda>ns. ns \<le> 9223372036 * 10 ^ 9)\<rparr>"

text \<open>The default configuration with \<open>-l -1\<close>.\<close>

definition no_loop_config :: Config where
  "no_loop_config = default_config\<lparr>maxdepth := Some (- 1)\<rparr>"

section \<open>GopherURL: validity, equality and hash\<close>

lemma escape_gurl_file_path:
  "to_file_path escape_gurl = ''example.org/../example.org.evil/passwd''"
  unfolding escape_gurl_def by code_simp

lemma escape_gurl_relpath:
  "relpath ''/home/user'' ''example.org/../example.org.evil/passwd''
     = Inr ''example.org.evil/passwd''"
  by code_simp

lemma escape_gurl_guards:
  "length (path escape_gurl) \<noteq> 0 \<and> \<not> port escape_gurl \<le> 0
   \<and> type escape_gurl \<notin> set invalid_types \<and> \<not> contains ''URL:'' (path escape_gurl)
   \<and> startswith ''example.org.evil/passwd'' (host escape_gurl)"
  unfolding escape_gurl_def by code_simp

text \<open>
  Claim C1 (path containment), evaluated where the code departs from it.  The selector
  \<open>/../example.org.evil/passwd\<close> on host \<open>example.org\<close> climbs out of the directory
  \<open>example.org\<close>: its storage path, made relative to the working directory, is
  \<open>example.org.evil/passwd\<close>.  That string begins with the characters of the host name,
  so \<open>valid\<close> returns True.
\<close>

theorem C1_valid_accepts_escape_to_sibling:
  "valid (w\<lparr>getcwd := ''/home/user''\<rparr>) escape_gurl = Inr True
   \<and> relpath ''/home/user'' (to_file_path escape_gurl) = Inr ''example.org.evil/passwd''"
  using escape_gurl_guards
  by (simp add: valid_def escape_gurl_file_path escape_gurl_relpath)

text \<open>The file \<open>write_gopherurl\<close> would write for it lies in the directory of another
  host.\<close>

lemma escape_gurl_outfile:
  "normpath (join (archive_directory default_config) (to_file_path escape_gurl))
     = ''archive/example.org.evil/passwd''"
  by code_simp

text \<open>The regression case of the specification is rejected.\<close>

lemma passwd_gurl_file_path: "to_file_path passwd_gurl = ''example.org/../../etc/passwd''"
  unfolding passwd_gurl_def by code_simp

lemma passwd_gurl_relpath:
  "relpath ''/home/user'' ''example.org/../../etc/passwd'' = Inr ''../etc/passwd''"
  by code_simp

lemma passwd_gurl_guards:
  "length (path passwd_gurl) \<noteq> 0 \<and> \<not> port passwd_gurl \<le> 0
   \<and> type passwd_gurl \<notin> set invalid_types \<and> \<not> contains ''URL:'' (path passwd_gurl)
   \<and> \<not> startswith ''../etc/passwd'' (host passwd_gurl)"
  unfolding passwd_gurl_def by code_simp

lemma valid_rejects_passwd_gurl:
  "valid (w\<lparr>getcwd := ''/home/user''\<rparr>) passwd_gurl = Inr False"
  using passwd_gurl_guards
  by (simp add: valid_def passwd_gurl_file_path passwd_gurl_relpath)

text \<open>With an empty host every relative path passes the prefix test.\<close>

lemma empty_host_relpath:
  "relpath ''/home/user'' ''../../etc/passwd'' = Inr ''../../etc/passwd''"
  by code_simp

lemma valid_accepts_empty_host_escape:
  "valid (w\<lparr>getcwd := ''/home/user''\<rparr>) (passwd_gurl\<lparr>host := []\<rparr>) = Inr True"
proof -
  have "to_file_path (passwd_gurl\<lparr>host := []\<rparr>) = ''../../etc/passwd''"
    unfolding passwd_gurl_def by code_simp
  moreover have "length (path (passwd_gurl\<lparr>host := []\<rparr>)) \<noteq> 0
      \<and> \<not> port (passwd_gurl\<lparr>host := []\<rparr>) \<le> 0
      \<and> type (passwd_gurl\<lparr>host := []\<rparr>) \<notin> set invalid_types
      \<and> \<not> contains ''URL:'' (path (passwd_gurl\<lparr>host := []\<rparr>))"
    unfolding passwd_gurl_def by code_simp
  ultimately show ?thesis
    by (simp add: valid_def empty_host_relpath)
qed

text \<open>
  Claim C5 (equality and hash), evaluated where the code departs from it: a menu and a
  file with the same host and selector are equal, but their storage paths differ, so
  their hashes agree only where the string hash collides on \<open>h/x/gophermap\<close> and
  \<open>h/x\<close>.
\<close>

theorem C5_equal_with_different_hash_input:
  "gurl_eq x_menu x_file
   \<and> to_file_path x_menu = ''h/x/gophermap'' \<and> to_file_path x_file = ''h/x''
   \<and> (\<forall>h. (gurl_hash h x_menu = gurl_hash h x_file) = (h ''h/x/gophermap'' = h ''h/x''))"
  by (simp add: x_menu_def x_file_def gurl_eq_def gurl_hash_def to_file_path_def
      to_url_path_def is_menu_def strip_slash_def strip_chars_def join_def endswith_def)

text \<open>What does hold: equality is exactly agreement on host and path, and two equal
  resources of the same kind (both menus, or both not) have the same hash.\<close>

lemma gurl_eq_iff: "gurl_eq a b = (host a = host b \<and> path a = path b)"
  by (simp add: gurl_eq_def)

lemma gurl_eq_same_kind_hash:
  "gurl_eq a b \<Longrightarrow> is_menu a = is_menu b \<Longrightarrow> gurl_hash h a = gurl_hash h b"
  by (simp add: gurl_eq_def gurl_hash_def to_file_path_def to_url_path_def)

text \<open>
  Claim C9 (\<open>valid\<close> is a predicate given by five rejection conditions), evaluated where
  the code departs from it: for an empty host, a selector made of slashes and a type
  other than menu, the storage path is empty and \<open>os.path.relpath\<close> raises ValueError,
  so \<open>valid\<close> returns neither True nor False.
\<close>

theorem C9_valid_raises_on_empty_storage_path:
  "valid w \<lparr>type = ''0'', gtext = ''x'', path = ''/'', host = [], port = 70\<rparr> = Inl ValueError"
  by (simp add: valid_def relpath_def to_file_path_def to_url_path_def is_menu_def
      invalid_types_def strip_slash_def strip_chars_def join_def)

text \<open>Everywhere else \<open>valid\<close> is the predicate the claim describes.\<close>

lemma valid_rejects:
  "path g = [] \<or> port g \<le> 0 \<or> type g \<in> set invalid_types \<or> contains ''URL:'' (path g)
   \<Longrightarrow> valid w g = Inr False"
  by (auto simp: valid_def)

lemma valid_characterisation:
  assumes "relpath (getcwd w) (to_file_path g) = Inr file_path"
  shows "valid w g =
           Inr (\<not> (path g = [] \<or> port g \<le> 0 \<or> type g \<in> set invalid_types
                    \<or> contains ''URL:'' (path g) \<or> \<not> startswith file_path (host g)))"
  using assms by (auto simp: valid_def)

lemma valid_raises_iff:
  "(valid w g = Inl e) =
     (e = ValueError \<and> path g \<noteq> [] \<and> 0 < port g \<and> type g \<notin> set invalid_types
      \<and> \<not> contains ''URL:'' (path g) \<and> to_file_path g = [])"
  by (auto simp: valid_def relpath_def Let_def)

text \<open>\<open>getlinks\<close> reaches this case on a line whose host field is empty; the exception is
  caught there and the line is skipped.\<close>

lemma parse_line_empty_host:
  "parse_line timeout_world (menu_line ''0x'' ''/'' [] ''70'') = Inl ValueError"
  by code_simp

lemma getlinks_empty_host:
  "getlinks timeout_world (menu_line ''0x'' ''/'' [] ''70'') = Inr []"
  by code_simp

section \<open>The retry policy of download\<close>

lemma download_loop_sleep_raises:
  "sleep d = Inl e \<Longrightarrow> download_loop sleep attempt d r sl = (Inl e, sl)"
  by (subst download_loop.simps) simp


lemma download_loop_retry:
  "sleep d = Inr u \<Longrightarrow> attempt r = Inl e
   \<Longrightarrow> e \<in> set [Gaierror, TimeoutError, ConnectionRefusedError] \<Longrightarrow> r < 3
   \<Longrightarrow> download_loop sleep attempt d r sl
       = download_loop sleep attempt (next_delay d) (Suc r) (sl @ [d])"
  by (subst download_loop.simps) auto


lemma download_loop_other_error:
  "sleep d = Inr u \<Longrightarrow> attempt r = Inl e
   \<Longrightarrow> e \<notin> set [Gaierror, TimeoutError, ConnectionRefusedError]
   \<Longrightarrow> download_loop sleep attempt d r sl = (Inl e, sl @ [d])"
  by (subst download_loop.simps) auto

lemma backoff_Suc: "backoff d (Suc n) = backoff d n @ [(next_delay ^^ n) d]"
  by (simp add: backoff_def)


text \<open>When \<open>time.sleep\<close> refuses a delay the exception leaves \<open>download\<close>.\<close>

lemma download_loop_sleep_error:
  assumes tr: "\<forall>k<i. \<exists>e\<in>set [Gaierror, TimeoutError, ConnectionRefusedError]. attempt k = Inl e"
    and sl: "\<forall>k<i. sleep ((next_delay ^^ k) d) = Inr ()"
    and bad: "sleep ((next_delay ^^ i) d) = Inl e" and "i < 4" "r \<le> i"
  shows "download_loop sleep attempt ((next_delay ^^ r) d) r (backoff d r) = (Inl e, backoff d i)"
  using assms(5)
proof (induction "i - r" arbitrary: r)
  case 0
  then have "r = i" by simp
  with download_loop_sleep_raises [of sleep "(next_delay ^^ i) d" e attempt i "backoff d i", OF bad]
  show ?case by simp
next
  case (Suc n)
  then have rlt: "r < i" by simp
  then obtain e' where e': "e' \<in> set [Gaierror, TimeoutError, ConnectionRefusedError]"
      "attempt r = Inl e'"
    using tr by blast
  from rlt sl have ok: "sleep ((next_delay ^^ r) d) = Inr ()" by simp
  from rlt assms(4) have r3: "r < 3" by simp
  have step: "download_loop sleep attempt ((next_delay ^^ r) d) r (backoff d r)
        = download_loop sleep attempt ((next_delay ^^ Suc r) d) (Suc r) (backoff d (Suc r))"
    using download_loop_retry [of sleep "(next_delay ^^ r) d" "()" attempt r e' "backoff d r",
        OF ok e'(2) e'(1) r3]
    by (simp add: backoff_Suc)
  have "n = i - Suc r" using Suc.hyps(2) by simp
  from Suc.hyps(1) [OF this] rlt show ?case unfolding step by simp
qed

lemma download_sleep_error:
  assumes "\<forall>k<i. \<exists>e\<in>set [Gaierror, TimeoutError, ConnectionRefusedError]. net w g k = Inl e"
    and "\<forall>k<i. time_sleep w ((next_delay ^^ k) d) = Inr ()"
    and "time_sleep w ((next_delay ^^ i) d) = Inl e" and "i < 4"
  shows "download w g d = (Inl e, backoff d i)"
proof -
  have "backoff d 0 = []" by (simp add: backoff_def)
  with download_loop_sleep_error [OF assms, of 0] show ?thesis by (simp add: download_def)
qed





text \<open>Against claim C8 as stated: with a delay of 9e9 seconds the first attempt times out
  and the next delay, 1.125e10 seconds, is more than \<open>time.sleep\<close> accepts: OverflowError
  leaves \<open>download\<close>.  And the smallest positive float is its own next delay.\<close>

theorem C8_grown_delay_raises:
  "time_sleep timeout_world (Finite 17578125 9) = Inr ()
   \<and> net timeout_world example_root 0 = Inl TimeoutError
   \<and> next_delay (Finite 17578125 9) = Finite 87890625 7
   \<and> download timeout_world example_root (Finite 17578125 9)
       = (Inl OverflowError, [Finite 17578125 9])
   \<and> next_delay (Finite 1 (- 1074)) = Finite 1 (- 1074)"
  by code_simp


section \<open>getlinks: one malformed line does not affect the others\<close>

lemma index_error: "index xs i = Inl e \<Longrightarrow> e = IndexError"
  by (simp add: index_def split: if_splits)

lemma py_int_error: "py_int maxd s = Inl e \<Longrightarrow> e = ValueError"
  by (auto simp: py_int_def Let_def split: list.splits if_splits option.splits prod.splits)

lemma valid_error: "valid w g = Inl e \<Longrightarrow> e = ValueError"
  by (auto simp: valid_def relpath_def Let_def split: if_splits)

lemma parse_line_error:
  assumes "parse_line w l = Inl e" shows "e = IndexError \<or> e = ValueError"
  using assms unfolding parse_line_def Let_def
  by (auto split: sum.splits if_splits dest: index_error py_int_error valid_error)

lemma getlinks_loop_append:
  "getlinks_loop w urls ls =
     Inr (urls @ concat (map (\<lambda>l. case parse_line w l of Inr (Some u) \<Rightarrow> [u] | _ \<Rightarrow> []) ls))"
proof (induction ls arbitrary: urls)
  case Nil
  show ?case by simp
next
  case (Cons l ls)
  show ?case
  proof (cases "parse_line w l")
    case (Inl e)
    with parse_line_error have "e = IndexError \<or> e = ValueError" by blast
    with Inl Cons show ?thesis by auto
  next
    case (Inr r)
    with Cons show ?thesis by (cases r) auto
  qed
qed

subsection \<open>Splitting and stripping\<close>

lemma split_on_not_Nil: "split_on c s \<noteq> []"
  by (induction s) (auto split: list.splits)

lemma split_on_no_sep: "c \<notin> set s \<Longrightarrow> split_on c s = [s]"
  by (induction s) auto

lemma split_on_append_sep:
  "c \<notin> set s \<Longrightarrow> split_on c (s @ c # t) = s # split_on c t"
  by (induction s) auto

lemma split_on_snoc_sep: "split_on c (s @ [c]) = split_on c s @ [[]]"
  by (induction s) (auto split: list.splits simp: split_on_not_Nil)

lemma split_on_join_lines:
  "ls \<noteq> [] \<Longrightarrow> \<forall>l\<in>set ls. c \<notin> set l \<Longrightarrow> split_on c (join_with [c] ls) = ls"
proof (induction "[c]" ls rule: join_with.induct)
  case 1
  then show ?case by simp
next
  case (2 x)
  then show ?case by (simp add: split_on_no_sep)
next
  case (3 x y ys)
  then show ?case by (simp add: split_on_append_sep)
qed

lemma split_on_first:
  "x \<noteq> c \<Longrightarrow> \<exists>t ts. split_on c (x # s) = (x # t) # ts"
  by (cases "split_on c s") (auto simp: split_on_not_Nil)

lemma split_on_four_fields:
  assumes "TAB \<notin> set a" "TAB \<notin> set b" "TAB \<notin> set c" "TAB \<notin> set d"
  shows "split_on TAB (menu_line a b c d) = [a, b, c, d]"
  using assms by (simp add: menu_line_def split_on_append_sep split_on_no_sep)

lemma strip_chars_id:
  assumes "s \<noteq> []" "\<not> p (hd s)" "\<not> p (last s)"
  shows "strip_chars p s = s"
proof -
  from assms(1,2) have a: "dropWhile p s = s" by (cases s) auto
  from assms(1,3) have "dropWhile p (rev s) = rev s" by (cases s rule: rev_cases) auto
  with a show ?thesis by (simp add: strip_chars_def)
qed

lemma strip_chars_trail:
  assumes "s \<noteq> []" "\<not> p (hd s)" "\<not> p (last s)" "list_all p t"
  shows "strip_chars p (s @ t) = s"
proof -
  from assms(1,2) have a: "dropWhile p (s @ t) = s @ t" by (cases s) auto
  have "dropWhile p (rev t @ rev s) = dropWhile p (rev s)"
    using assms(4) by (intro dropWhile_append2) (simp add: list_all_iff)
  moreover from assms(1,3) have "dropWhile p (rev s) = rev s" by (cases s rule: rev_cases) auto
  ultimately show ?thesis using a by (simp add: strip_chars_def)
qed

lemma strip_chars_keeps:
  assumes "c \<in> set s" "\<not> p c"
  shows "c \<in> set (strip_chars p s)"
proof -
  have keep: "c \<in> set (dropWhile p xs)" if "c \<in> set xs" for xs
    using that assms(2) by (induction xs) auto
  from keep [OF assms(1)] have "c \<in> set (rev (dropWhile p s))" by simp
  from keep [OF this] show ?thesis by (simp add: strip_chars_def)
qed

lemma strip_chars_hd:
  assumes "strip_chars p s \<noteq> []"
  shows "\<not> p (hd (strip_chars p s))"
proof -
  let ?t = "dropWhile p s"
  have t: "?t = rev (dropWhile p (rev ?t)) @ rev (takeWhile p (rev ?t))"
    by (metis rev_append rev_rev_ident takeWhile_dropWhile_id)
  from assms have ne: "rev (dropWhile p (rev ?t)) \<noteq> []" by (simp add: strip_chars_def)
  have "?t \<noteq> []"
  proof
    assume a: "?t = []"
    show False using ne unfolding a by simp
  qed
  then have "\<not> p (hd ?t)" by (rule hd_dropWhile)
  moreover have "hd ?t = hd (rev (dropWhile p (rev ?t)))"
    using ne t by (metis hd_append2)
  ultimately show ?thesis by (simp add: strip_chars_def)
qed

subsection \<open>Integers\<close>

lemma is_digit_not_space: "is_digit c \<Longrightarrow> \<not> is_space c"
  by (auto simp: is_digit_def is_space_def)

lemma is_int_space_is_space: "is_int_space c \<Longrightarrow> is_space c"
  by (auto simp: is_int_space_def is_space_def)

lemma is_digit_not_sign: "is_digit c \<Longrightarrow> c \<noteq> CHR ''+'' \<and> c \<noteq> CHR ''-'' \<and> c \<noteq> CHR ''_''"
  by (auto simp: is_digit_def)

lemma parse_digits_all_digits:
  "list_all is_digit cs \<Longrightarrow>
   parse_digits acc cs = Some (foldl (\<lambda>a c. 10 * a + digit_val c) acc cs)"
  by (induction acc cs rule: parse_digits.induct) auto

lemma parse_digits_chars:
  "parse_digits acc cs = Some n \<Longrightarrow> c \<in> set cs \<Longrightarrow> is_digit c \<or> c = CHR ''_''"
  by (induction acc cs rule: parse_digits.induct) (auto split: if_splits)

lemma py_int_digits:
  assumes "s \<noteq> []" "list_all is_digit s" "maxd = 0 \<or> length s \<le> maxd"
  shows "py_int maxd s = Inr (int (decimal s))"
proof -
  from assms(1) obtain c cs where s: "s = c # cs" by (cases s) auto
  from assms(1,2) have d: "is_digit (hd s)" "is_digit (last s)"
    by (auto simp: list_all_iff)
  then have st: "strip_chars is_int_space s = s"
    using is_digit_not_space is_int_space_is_space assms(1) by (intro strip_chars_id) blast+
  from s assms(2) have c: "is_digit c" "list_all is_digit cs" by auto
  have f: "filter is_digit s = s" using assms(2) by (simp add: list_all_iff)
  have p: "parse_digits (digit_val c) cs = Some (decimal s)"
    using parse_digits_all_digits [OF c(2)] by (simp add: decimal_def s)
  show ?thesis
    unfolding py_int_def st
    using c(1) is_digit_not_sign [OF c(1)] p f assms(3) by (auto simp: s Let_def)
qed

lemma py_int_bad_port:
  assumes "bad_port s"
  shows "py_int maxd (strip s) = Inl ValueError"
proof -
  from assms obtain c where c: "c \<in> set s" "\<not> is_digit c" "c \<noteq> CHR ''_''" "c \<noteq> CHR ''+''"
      "c \<noteq> CHR ''-''" "\<not> is_space c"
    by (auto simp: bad_port_def list_ex_iff)
  let ?t = "strip_chars is_int_space (strip s)"
  have "c \<in> set (strip s)"
    unfolding strip_def using c(1,6) by (simp add: strip_chars_keeps)
  moreover have "\<not> is_int_space c" using c(6) is_int_space_is_space by blast
  ultimately have ct: "c \<in> set ?t" by (simp add: strip_chars_keeps)
  then obtain x xs where t: "?t = x # xs" by (cases ?t) auto
  have nodigits: "parse_digits acc ys \<noteq> Some n" if "c \<in> set ys" for acc ys n
    using parse_digits_chars [of acc ys n c] that c(2,3) by blast
  show ?thesis
  proof (cases "x = CHR ''+'' \<or> x = CHR ''-''")
    case True
    with ct t c(4,5) have cx: "c \<in> set xs" by auto
    then obtain y ys where xs: "xs = y # ys" by (cases xs) auto
    show ?thesis
    proof (cases "is_digit y")
      case False
      with True t xs show ?thesis by (auto simp: py_int_def Let_def)
    next
      case dy: True
      with cx xs c(2) have "c \<in> set ys" by auto
      from nodigits [OF this] have "parse_digits (digit_val y) ys = None" by (cases "parse_digits (digit_val y) ys") auto
      with True t xs show ?thesis by (auto simp: py_int_def Let_def)
    qed
  next
    case False
    show ?thesis
    proof (cases "is_digit x")
      case nd: False
      with False t show ?thesis by (auto simp: py_int_def Let_def)
    next
      case dx: True
      with ct t c(2) have "c \<in> set xs" by auto
      from nodigits [OF this] have "parse_digits (digit_val x) xs = None" by (cases "parse_digits (digit_val x) xs") auto
      with False t show ?thesis by (auto simp: py_int_def Let_def)
    qed
  qed
qed

subsection \<open>What the loop body does with a line\<close>

lemma tokens_of_fields:
  assumes "fields_ok f"
  shows "split_on TAB (strip (render_line f))
           = [f_type f # f_label f, f_selector f, f_host f, f_port f]"
proof -
  let ?x = "menu_line (f_type f # f_label f) (f_selector f) (f_host f) (f_port f)"
  from assms have ok: "\<not> is_space (f_type f)" "TAB \<notin> set (f_label f)"
      "TAB \<notin> set (f_selector f)" "TAB \<notin> set (f_host f)" "TAB \<notin> set (f_port f)"
      "f_port f \<noteq> []" "\<not> is_space (last (f_port f))" "list_all is_space (f_trail f)"
    by (simp_all add: fields_ok_def)
  have "f_type f \<noteq> TAB" using ok(1) by (auto simp: is_space_def)
  then have t: "TAB \<notin> set (f_type f # f_label f)" using ok(2) by simp
  have l: "last ?x = last (f_port f)" using ok(6) by (simp add: menu_line_def)
  have "strip (render_line f) = ?x"
    unfolding strip_def render_line_def
    by (rule strip_chars_trail) (use ok(1,7,8) l in \<open>simp_all add: menu_line_def\<close>)
  then show ?thesis using split_on_four_fields [OF t ok(3,4,5)] by simp
qed

lemma parse_line_good:
  assumes "good_line w f"
  shows "parse_line w (render_line f) = Inr (Some (line_url f))"
proof -
  from assms have ok: "fields_ok f" "list_all is_digit (f_port f)"
      "int_max_str_digits w = 0 \<or> length (f_port f) \<le> int_max_str_digits w"
      "valid w (line_url f) = Inr True"
    by (simp_all add: good_line_def)
  from ok(1) have ne: "f_port f \<noteq> []" "f_type f \<noteq> CHR ''i''" by (simp_all add: fields_ok_def)
  from ne(1) ok(2) have "is_digit (hd (f_port f))" "is_digit (last (f_port f))"
    by (auto simp: list_all_iff)
  then have "strip (f_port f) = f_port f"
    unfolding strip_def using ne(1) is_digit_not_space by (intro strip_chars_id) blast+
  then have i: "py_int (int_max_str_digits w) (strip (f_port f)) = Inr (int (decimal (f_port f)))"
    using py_int_digits [OF ne(1) ok(2,3)] by simp
  show ?thesis
    unfolding parse_line_def tokens_of_fields [OF ok(1)]
    using ne(2) i ok(4) by (simp add: index_def Let_def line_url_def)
qed

lemma parse_line_non_integer_port:
  assumes "non_integer_port f"
  shows "parse_line w (render_line f) = Inl ValueError"
proof -
  from assms have ok: "fields_ok f" "bad_port (f_port f)" by (simp_all add: non_integer_port_def)
  from ok(1) have ne: "f_type f \<noteq> CHR ''i''" by (simp add: fields_ok_def)
  show ?thesis
    unfolding parse_line_def tokens_of_fields [OF ok(1)]
    using ne py_int_bad_port [OF ok(2)] by (simp add: index_def Let_def)
qed

lemma parse_line_missing_fields:
  assumes "missing_fields l"
  shows "parse_line w l = Inl IndexError"
proof (cases "strip l = []")
  case True
  then show ?thesis by (simp add: parse_line_def index_def)
next
  case False
  then obtain c rest where s: "strip l = c # rest" by (cases "strip l") auto
  from assms s have len: "length (split_on TAB (strip l)) < 4" and ci: "c \<noteq> CHR ''i''"
    by (simp_all add: missing_fields_def)
  have "\<not> is_space c" using strip_chars_hd [of is_space l] s by (simp add: strip_def)
  then have "c \<noteq> TAB" by (auto simp: is_space_def)
  from split_on_first [OF this] obtain t ts where tk: "split_on TAB (strip l) = (c # t) # ts"
    unfolding s by blast
  with len have "length ts < 3" by simp
  then consider "ts = []" | a where "ts = [a]" | a b where "ts = [a, b]"
    by (cases ts rule: list.exhaust; cases "tl ts"; cases "tl (tl ts)") auto
  then show ?thesis
    by cases (use ci in \<open>simp_all add: parse_line_def tk index_def Let_def\<close>)
qed

lemma parse_line_empty: "parse_line w [] = Inl IndexError"
  by (simp add: parse_line_def index_def strip_def strip_chars_def)

text \<open>
  Claim C7.  Take a menu text made of the well-formed, non-informational, valid lines
  \<open>pre\<close>, one malformed line \<open>bad\<close> (it has fewer than four fields, or its port contains a
  character that cannot occur in an integer), and the well-formed, non-informational,
  valid lines \<open>post\<close>, joined by line feeds and optionally ended by a line feed.  Then
  \<open>getlinks\<close> returns, without raising, exactly the resources of the lines of \<open>pre\<close> and
  \<open>post\<close>, in line order: as many as there are such lines.
\<close>

theorem C7_getlinks_skips_malformed_line:
  assumes "\<forall>f\<in>set (pre @ post). good_line w f"
    and "missing_fields bad \<or> (bad = render_line bf \<and> non_integer_port bf)"
    and "LF \<notin> set bad"
    and "ending = [] \<or> ending = [LF]"
  shows "getlinks w (join_with [LF] (map render_line pre @ [bad] @ map render_line post) @ ending)
           = Inr (map line_url (pre @ post))
         \<and> length (map line_url (pre @ post)) = length pre + length post"
proof -
  let ?ls = "map render_line pre @ [bad] @ map render_line post"
  let ?res = "\<lambda>l. case parse_line w l of Inr (Some u) \<Rightarrow> [u] | _ \<Rightarrow> []"
  have nolf: "\<forall>l\<in>set ?ls. LF \<notin> set l"
    using assms(1,3) by (auto simp: good_line_def fields_ok_def)
  then have sp: "split_on LF (join_with [LF] ?ls) = ?ls"
    by (intro split_on_join_lines) auto
  have lines: "split_on LF (join_with [LF] ?ls @ ending) = ?ls \<or>
               split_on LF (join_with [LF] ?ls @ ending) = ?ls @ [[]]"
    using assms(4) sp by (auto simp: split_on_snoc_sep)
  have good: "concat (map ?res (map render_line fs)) = map line_url fs"
    if "\<forall>f\<in>set fs. good_line w f" for fs
    using that by (induction fs) (simp_all add: parse_line_good)
  have "parse_line w bad = Inl IndexError \<or> parse_line w bad = Inl ValueError"
    using assms(2) parse_line_missing_fields parse_line_non_integer_port by blast
  then have bad: "?res bad = []" by auto
  have "concat (map ?res ?ls) = map line_url (pre @ post)"
    using good [of pre] good [of post] assms(1) bad by simp
  moreover have "?res [] = []" by (simp add: parse_line_empty)
  ultimately have "concat (map ?res (split_on LF (join_with [LF] ?ls @ ending)))
                     = map line_url (pre @ post)"
    using lines by auto
  then show ?thesis by (simp add: getlinks_def getlinks_loop_append)
qed

lemma sub_fields_good: "good_line timeout_world sub_fields"
  by code_simp

lemma file_fields_good: "good_line timeout_world file_fields"
  by code_simp

lemma bad_fields_bad: "non_integer_port bad_fields"
  by code_simp

lemma example_lines:
  "render_line sub_fields = sub_line" "render_line file_fields = file_line"
  "line_url sub_fields = sub_gurl" "line_url file_fields = file_gurl"
  "LF \<notin> set (render_line bad_fields)"
  by code_simp+

theorem C7_getlinks_skips_malformed_line_witness:
  "good_line timeout_world sub_fields \<and> good_line timeout_world file_fields
   \<and> non_integer_port bad_fields
   \<and> getlinks timeout_world
        (join_with [LF] [sub_line, render_line bad_fields, file_line] @ [LF])
       = Inr [sub_gurl, file_gurl]"
proof -
  have g: "\<forall>f\<in>set ([sub_fields] @ [file_fields]). good_line timeout_world f"
    by (simp add: sub_fields_good file_fields_good)
  have b: "missing_fields (render_line bad_fields)
           \<or> (render_line bad_fields = render_line bad_fields \<and> non_integer_port bad_fields)"
    by (simp add: bad_fields_bad)
  have e: "[LF] = [] \<or> [LF] = [LF]" by simp
  from C7_getlinks_skips_malformed_line [OF g b example_lines(5) e]
  show ?thesis by (simp add: example_lines sub_fields_good file_fields_good bad_fields_bad)
qed

text \<open>A line with a field missing, in the same place.\<close>

lemma getlinks_missing_field:
  "missing_fields (menu_line ''0Bad'' ''/bad'' ''example.org'' [])
   \<and> getlinks timeout_world
        (join_with [LF] [sub_line, menu_line ''0Bad'' ''/bad'' ''example.org'' [], file_line])
       = Inr [sub_gurl, file_gurl]"
  by code_simp

section \<open>Reading back a persisted menu\<close>

text \<open>What the code does: \<open>retrieve_menu_content\<close> reads a file when one exists at the
  storage path taken relative to the working directory, and clobbering is off.\<close>

lemma retrieve_menu_content_local:
  "path_exists w (to_file_path g) \<Longrightarrow> \<not> clobber config \<Longrightarrow> slurp w (to_file_path g) = Inr bytes
   \<Longrightarrow> retrieve_menu_content w config g = Inr (Some (decode_utf8 w bytes))"
  by (simp add: retrieve_menu_content_def)

lemma retrieve_menu_content_remote:
  "\<not> path_exists w (to_file_path g) \<Longrightarrow>
   retrieve_menu_content w config g =
     (case fst (download w g (delay config)) of
        Inl e \<Rightarrow> if e \<in> set [Gaierror, TimeoutError] then Inr None else Inl e
      | Inr None \<Rightarrow> Inr None
      | Inr (Some content) \<Rightarrow> Inr (Some (decode_utf8 w content)))"
  by (simp add: retrieve_menu_content_def)

text \<open>
  Claim C10 (a persisted menu is read back instead of fetched), evaluated where the code
  departs from it.  With the default archive directory \<open>./archive/\<close> and clobbering off,
  \<open>write_gopherurl\<close> stores the root menu at \<open>archive/example.org/gophermap\<close> below the
  working directory.  \<open>retrieve_menu_content\<close> then looks for \<open>example.org/gophermap\<close>
  below the working directory, finds nothing, and downloads the menu.
\<close>

theorem C10_persisted_menu_is_fetched_again:
  "case write_gopherurl disk_world example_root default_config (Some ''persisted'') of
     Inl e \<Rightarrow> False
   | Inr w' \<Rightarrow>
       files w' ''/home/user/archive/example.org/gophermap'' = Some (File ''persisted'')
       \<and> path_exists w' (join (archive_directory default_config) (to_file_path example_root))
       \<and> \<not> path_exists w' (to_file_path example_root)
       \<and> retrieve_menu_content w' default_config example_root = Inr (Some ''fetched'')"
  by code_simp

text \<open>When the archive directory is the working directory the copy is found.\<close>

lemma persisted_menu_in_working_directory_is_read:
  "case write_gopherurl disk_world example_root (default_config\<lparr>archive_directory := []\<rparr>)
          (Some ''persisted'') of
     Inl e \<Rightarrow> False
   | Inr w' \<Rightarrow>
       retrieve_menu_content w' (default_config\<lparr>archive_directory := []\<rparr>) example_root
         = Inr (Some ''persisted'')"
  by code_simp

section \<open>Sets of GopherURL\<close>

text \<open>Two objects are the same member of a set exactly when their keys agree.\<close>

lemma same_member_key: "same_member w a b = (key w a = key w b)"
  by (auto simp: same_member_def key_def gurl_eq_def)

lemma set_contains_key: "set_contains w s x = (key w x \<in> key w ` set s)"
proof
  assume "set_contains w s x"
  then obtain y where "y \<in> set s" "key w y = key w x"
    by (auto simp: set_contains_def list_ex_iff same_member_key)
  then show "key w x \<in> key w ` set s" by (metis imageI)
next
  assume "key w x \<in> key w ` set s"
  then obtain y where "y \<in> set s" "key w y = key w x" by auto
  then show "set_contains w s x"
    by (auto simp: set_contains_def list_ex_iff same_member_key)
qed

lemma set_add_set: "set (set_add w s x) = (if set_contains w s x then set s else insert x (set s))"
  by (simp add: set_add_def)

lemma set_add_keys: "key w ` set (set_add w s x) = insert (key w x) (key w ` set s)"
  by (auto simp: set_add_def set_contains_key)

lemma set_add_distinct:
  "distinct (map (key w) s) \<Longrightarrow> distinct (map (key w) (set_add w s x))"
  by (auto simp: set_add_def set_contains_key)

lemma set_update_keys: "key w ` set (set_update w s xs) = key w ` set s \<union> key w ` set xs"
  unfolding set_update_def
  by (induction xs arbitrary: s) (auto simp: set_add_keys)

lemma set_update_distinct:
  "distinct (map (key w) s) \<Longrightarrow> distinct (map (key w) (set_update w s xs))"
  unfolding set_update_def
  by (induction xs arbitrary: s) (auto simp: set_add_distinct)

lemma set_update_subset: "set (set_update w s xs) \<subseteq> set s \<union> set xs"
  unfolding set_update_def
proof (induction xs arbitrary: s)
  case Nil show ?case by simp
next
  case (Cons x xs)
  have "set (set_add w s x) \<subseteq> insert x (set s)" by (auto simp: set_add_set)
  with Cons [of "set_add w s x"] show ?case by auto
qed

lemma set_update_superset: "set s \<subseteq> set (set_update w s xs)"
  unfolding set_update_def
proof (induction xs arbitrary: s)
  case Nil show ?case by simp
next
  case (Cons x xs)
  have "set s \<subseteq> set (set_add w s x)" by (auto simp: set_add_set)
  with Cons [of "set_add w s x"] show ?case by auto
qed

lemma set_update_new:
  "distinct (map (key w) d) \<Longrightarrow> key w ` set d \<inter> key w ` set s = {} \<Longrightarrow> set_update w s d = s @ d"
  unfolding set_update_def
proof (induction d arbitrary: s)
  case Nil show ?case by simp
next
  case (Cons x d)
  have a: "set_add w s x = s @ [x]" using Cons.prems(2) by (auto simp: set_add_def set_contains_key)
  have "key w ` set d \<inter> key w ` set (s @ [x]) = {}" using Cons.prems by auto
  with Cons.IH [of "s @ [x]"] Cons.prems(1) a show ?case by simp
qed

lemma py_set_update: "py_set w xs = set_update w [] xs"
  by (simp add: py_set_def set_update_def)

lemma py_set_keys: "key w ` set (py_set w xs) = key w ` set xs"
  by (simp add: py_set_update set_update_keys)

lemma py_set_distinct: "distinct (map (key w) (py_set w xs))"
  by (simp add: py_set_update set_update_distinct)

lemma py_set_subset: "set (py_set w xs) \<subseteq> set xs"
  using set_update_subset [of w "[]" xs] by (simp add: py_set_update)

lemma py_set_contains: "x \<in> set xs \<Longrightarrow> set_contains w (py_set w xs) x"
  by (simp add: set_contains_key py_set_keys)

lemma py_set_distinct_id: "distinct (map (key w) xs) \<Longrightarrow> py_set w xs = xs"
  using set_update_new [of w xs "[]"] by (simp add: py_set_update)

lemma set_difference_subset: "set (set_difference w a b) \<subseteq> set a"
  by (auto simp: set_difference_def)

lemma set_difference_set:
  "set (set_difference w a b) = {x \<in> set a. key w x \<notin> key w ` set b}"
  by (simp add: set_difference_def set_contains_key)

lemma set_difference_keys:
  "key w ` set (set_difference w a b) = key w ` set a - key w ` set b"
proof (intro set_eqI iffI)
  fix k assume "k \<in> key w ` set (set_difference w a b)"
  then obtain x where x: "x \<in> set (set_difference w a b)" "k = key w x" by (elim imageE)
  from x(1) have "x \<in> set a" "key w x \<notin> key w ` set b"
    unfolding set_difference_set by simp_all
  with x(2) show "k \<in> key w ` set a - key w ` set b" by simp
next
  fix k assume "k \<in> key w ` set a - key w ` set b"
  then obtain x where "x \<in> set a" "k = key w x" "k \<notin> key w ` set b" by (elim DiffE imageE)
  then have "x \<in> set (set_difference w a b)" unfolding set_difference_set by simp
  with \<open>k = key w x\<close> show "k \<in> key w ` set (set_difference w a b)" by (simp only: imageI)
qed

lemma set_difference_distinct:
  "distinct (map (key w) a) \<Longrightarrow> distinct (map (key w) (set_difference w a b))"
  by (simp add: set_difference_def distinct_map_filter)

text \<open>One iteration of the loop, in terms of keys.\<close>

lemma grow_eq:
  "distinct (map (key w) gurls) \<Longrightarrow>
   set_update w gurls (set_difference w (py_set w links) gurls)
     = gurls @ set_difference w (py_set w links) gurls"
  by (intro set_update_new) (auto simp: set_difference_distinct py_set_distinct set_difference_keys)

lemma grow_contains:
  assumes "g \<in> set links"
  shows "set_contains w (set_update w gurls (set_difference w (py_set w links) gurls)) g"
  using assms by (auto simp: set_contains_key set_update_keys set_difference_keys py_set_keys)

lemma grow_mono:
  "set_contains w gurls g \<Longrightarrow> set_contains w (set_update w gurls d) g"
  by (auto simp: set_contains_key set_update_keys)

section \<open>Invariants of the crawl loop\<close>

lemma crawl_loop_step:
  assumes "\<not> depth_exceeds depth (maxdepth config)"
    and "gopher_urls_from_menu_link w config root_gurl menu = Inr links"
  shows "crawl_loop (Suc fuel) w config root_gurl gurls (menu # rest) depth expanded =
         crawl_loop fuel w config root_gurl
           (set_update w gurls (set_difference w (py_set w links) gurls))
           (rest @ get_menus (set_order w (set_difference w (py_set w links) gurls)))
           (Suc depth) (expanded @ [menu])"
  using assms by (simp add: Let_def)

text \<open>The possible ways one call of the loop returns a result.\<close>

lemma crawl_loop_cases:
  assumes "crawl_loop fuel w config root_gurl gurls menus depth expanded = Some (Inr r)"
  obtains
    (stop) "r = (gurls, expanded)" "menus = [] \<or> depth_exceeds depth (maxdepth config)"
  | (step) fuel' menu rest links where
      "fuel = Suc fuel'" "menus = menu # rest"
      "\<not> depth_exceeds depth (maxdepth config)"
      "gopher_urls_from_menu_link w config root_gurl menu = Inr links"
      "crawl_loop fuel' w config root_gurl
           (set_update w gurls (set_difference w (py_set w links) gurls))
           (rest @ get_menus (set_order w (set_difference w (py_set w links) gurls)))
           (Suc depth) (expanded @ [menu]) = Some (Inr r)"
proof (cases fuel)
  case 0
  with assms show ?thesis by simp
next
  case (Suc fuel')
  show ?thesis
  proof (cases menus)
    case Nil
    with Suc assms stop show ?thesis by simp
  next
    case (Cons menu rest)
    show ?thesis
    proof (cases "depth_exceeds depth (maxdepth config)")
      case True
      with Suc Cons assms stop show ?thesis by simp
    next
      case False
      show ?thesis
      proof (cases "gopher_urls_from_menu_link w config root_gurl menu")
        case (Inl e)
        with Suc Cons False assms show ?thesis by simp
      next
        case (Inr links)
        from assms Suc Cons have "crawl_loop (Suc fuel') w config root_gurl gurls (menu # rest) depth expanded = Some (Inr r)"
          by simp
        then have "crawl_loop fuel' w config root_gurl
           (set_update w gurls (set_difference w (py_set w links) gurls))
           (rest @ get_menus (set_order w (set_difference w (py_set w links) gurls)))
           (Suc depth) (expanded @ [menu]) = Some (Inr r)"
          unfolding crawl_loop_step [OF False Inr] .
        with Suc Cons False Inr step show ?thesis by blast
      qed
    qed
  qed
qed

lemma crawl_loop_discovered:
  assumes "crawl_loop fuel w config root_gurl gurls menus depth expanded = Some (Inr (gurls', expanded'))"
    and "\<forall>m\<in>set expanded. \<forall>links. gopher_urls_from_menu_link w config root_gurl m = Inr links
           \<longrightarrow> (\<forall>g\<in>set links. set_contains w gurls g)"
  shows "\<forall>m\<in>set expanded'. \<forall>links. gopher_urls_from_menu_link w config root_gurl m = Inr links
           \<longrightarrow> (\<forall>g\<in>set links. set_contains w gurls' g)"
  using assms
proof (induction fuel arbitrary: gurls menus depth expanded)
  case 0
  then show ?case by simp
next
  case (Suc fuel)
  from Suc.prems(1) show ?case
  proof (cases rule: crawl_loop_cases)
    case stop
    with Suc.prems(2) show ?thesis by simp
  next
    case (step fuel' menu rest links)
    let ?g = "set_update w gurls (set_difference w (py_set w links) gurls)"
    have inv: "\<forall>m\<in>set (expanded @ [menu]). \<forall>ls. gopher_urls_from_menu_link w config root_gurl m = Inr ls
           \<longrightarrow> (\<forall>g\<in>set ls. set_contains w ?g g)"
      using Suc.prems(2) step(4) by (auto intro: grow_mono grow_contains)
    from step(1) have "fuel' = fuel" by simp
    with step(5) Suc.IH [OF _ inv] show ?thesis by blast
  qed
qed

lemma crawl_loop_only_discovered:
  assumes "crawl_loop fuel w config root_gurl gurls menus depth expanded = Some (Inr (gurls', expanded'))"
    and "\<forall>g\<in>set gurls. \<exists>m\<in>set expanded. \<exists>links.
            gopher_urls_from_menu_link w config root_gurl m = Inr links \<and> g \<in> set links"
  shows "\<forall>g\<in>set gurls'. \<exists>m\<in>set expanded'. \<exists>links.
            gopher_urls_from_menu_link w config root_gurl m = Inr links \<and> g \<in> set links"
  using assms
proof (induction fuel arbitrary: gurls menus depth expanded)
  case 0
  then show ?case by simp
next
  case (Suc fuel)
  from Suc.prems(1) show ?case
  proof (cases rule: crawl_loop_cases)
    case stop
    with Suc.prems(2) show ?thesis by simp
  next
    case (step fuel' menu rest links)
    let ?d = "set_difference w (py_set w links) gurls"
    let ?g = "set_update w gurls ?d"
    have "set ?g \<subseteq> set gurls \<union> set links"
      using set_update_subset [of w gurls ?d] set_difference_subset [of w "py_set w links" gurls]
        py_set_subset [of w links] by blast
    then have inv: "\<forall>g\<in>set ?g. \<exists>m\<in>set (expanded @ [menu]). \<exists>ls.
            gopher_urls_from_menu_link w config root_gurl m = Inr ls \<and> g \<in> set ls"
      using Suc.prems(2) step(4) by (auto; blast)
    from step(1) have "fuel' = fuel" by simp
    with step(5) Suc.IH [OF _ inv] show ?thesis by blast
  qed
qed


lemma distinct_count_list: "distinct xs \<Longrightarrow> count_list xs x = (if x \<in> set xs then 1 else 0)"
  by (induction xs) auto

lemma set_order_set:
  "\<forall>xs. mset (set_order w xs) = mset xs \<Longrightarrow> set (set_order w xs) = set xs"
  by (metis mset_eq_setD)

lemma set_order_length:
  "\<forall>xs. mset (set_order w xs) = mset xs \<Longrightarrow> length (set_order w xs) = length xs"
  by (metis mset_eq_length)

lemma set_order_distinct:
  assumes "\<forall>xs. mset (set_order w xs) = mset xs" and "distinct (map f xs)"
  shows "distinct (map f (set_order w xs))"
proof -
  have "mset (map f (set_order w xs)) = mset (map f xs)" using assms(1) by simp
  then show ?thesis using assms(2) by (metis mset_eq_imp_distinct_iff)
qed

lemma get_menus_set_order_distinct:
  assumes "\<forall>xs. mset (set_order w xs) = mset xs" and "distinct (map (key w) xs)"
  shows "distinct (map (key w) (get_menus (set_order w xs)))"
  using set_order_distinct [OF assms] by (simp add: get_menus_def distinct_map_filter)

lemma get_menus_set_order_subset:
  assumes "\<forall>xs. mset (set_order w xs) = mset xs"
  shows "set (get_menus (set_order w xs)) \<subseteq> set xs"
  using set_order_set [OF assms, of xs] by (auto simp: get_menus_def)

lemma get_menus_set_order_length:
  assumes "\<forall>xs. mset (set_order w xs) = mset xs"
  shows "length (get_menus (set_order w xs)) \<le> length xs"
  using set_order_length [OF assms, of xs] length_filter_le [of is_menu "set_order w xs"]
  by (simp add: get_menus_def)

lemma crawl_loop_distinct:
  assumes "crawl_loop fuel w config root_gurl gurls menus depth expanded = Some (Inr (gurls', expanded'))"
    and "distinct (map (key w) gurls)"
  shows "distinct (map (key w) gurls')"
  using assms
proof (induction fuel arbitrary: gurls menus depth expanded)
  case 0
  then show ?case by simp
next
  case (Suc fuel)
  from Suc.prems(1) show ?case
  proof (cases rule: crawl_loop_cases)
    case stop
    with Suc.prems(2) show ?thesis by simp
  next
    case (step fuel' menu rest links)
    from step(1) have "fuel' = fuel" by simp
    with step(5) Suc.IH [OF _ set_update_distinct [OF Suc.prems(2)]] show ?thesis by blast
  qed
qed

lemma crawl_loop_counts:
  assumes perm: "\<forall>xs. mset (set_order w xs) = mset xs"
    and "crawl_loop fuel w config root_gurl gurls menus depth expanded = Some (Inr (gurls', expanded'))"
    and "distinct (map (key w) gurls)"
    and "\<forall>k. count_list (map (key w) (expanded @ menus)) k
            \<le> (if k \<in> key w ` set gurls then 1 else 0) + c k"
  shows "\<forall>k. count_list (map (key w) expanded') k \<le> 1 + c k"
  using assms(2-)
proof (induction fuel arbitrary: gurls menus depth expanded)
  case 0
  then show ?case by simp
next
  case (Suc fuel)
  from Suc.prems(1) show ?case
  proof (cases rule: crawl_loop_cases)
    case stop
    show ?thesis
    proof
      fix k
      have "count_list (map (key w) expanded') k \<le> count_list (map (key w) (expanded @ menus)) k"
        using stop(1) by simp
      also have "\<dots> \<le> (if k \<in> key w ` set gurls then 1 else 0) + c k"
        using Suc.prems(3) by blast
      also have "\<dots> \<le> 1 + c k" by simp
      finally show "count_list (map (key w) expanded') k \<le> 1 + c k" .
    qed
  next
    case (step fuel' menu rest links)
    let ?d = "set_difference w (py_set w links) gurls"
    let ?g = "set_update w gurls ?d"
    let ?nm = "get_menus (set_order w ?d)"
    have dd: "distinct (map (key w) ?d)"
      by (simp add: set_difference_distinct py_set_distinct)
    have dnm: "distinct (map (key w) ?nm)"
      by (rule get_menus_set_order_distinct [OF perm dd])
    have knm: "key w ` set ?nm \<subseteq> key w ` set ?d"
      using get_menus_set_order_subset [OF perm, of ?d] by blast
    have kd: "key w ` set ?d \<inter> key w ` set gurls = {}"
      by (auto simp: set_difference_keys)
    have kg: "key w ` set ?g = key w ` set gurls \<union> key w ` set ?d"
      by (rule set_update_keys)
    have inv: "\<forall>k. count_list (map (key w) ((expanded @ [menu]) @ rest @ ?nm)) k
            \<le> (if k \<in> key w ` set ?g then 1 else 0) + c k"
    proof
      fix k
      have old: "count_list (map (key w) (expanded @ menus)) k
            \<le> (if k \<in> key w ` set gurls then 1 else 0) + c k"
        using Suc.prems(3) by blast
      have new: "count_list (map (key w) ?nm) k = (if k \<in> key w ` set ?nm then 1 else 0)"
        using distinct_count_list [OF dnm, of k] by simp
      have split: "count_list (map (key w) ((expanded @ [menu]) @ rest @ ?nm)) k
            = count_list (map (key w) (expanded @ menus)) k + count_list (map (key w) ?nm) k"
        using step(2) by simp
      show "count_list (map (key w) ((expanded @ [menu]) @ rest @ ?nm)) k
            \<le> (if k \<in> key w ` set ?g then 1 else 0) + c k"
      proof (cases "k \<in> key w ` set ?nm")
        case True
        with knm have "k \<in> key w ` set ?d" by blast
        with kd have "k \<notin> key w ` set gurls" by blast
        with old have "count_list (map (key w) (expanded @ menus)) k \<le> c k" by simp
        moreover have "k \<in> key w ` set ?g" using \<open>k \<in> key w ` set ?d\<close> kg by blast
        ultimately show ?thesis using True new split by simp
      next
        case False
        have "(if k \<in> key w ` set gurls then 1 else 0) \<le> (if k \<in> key w ` set ?g then 1 else (0::nat))"
          using kg by auto
        with old False new split show ?thesis by simp
      qed
    qed
    from step(1) have "fuel' = fuel" by simp
    with step(5) Suc.IH [OF _ set_update_distinct [OF Suc.prems(2)] inv] show ?thesis by blast
  qed
qed


lemma crawl_loop_terminates:
  assumes perm: "\<forall>xs. mset (set_order w xs) = mset xs"
    and fin: "\<forall>m\<in>set (root_gurl # get_menus U). \<exists>links.
               gopher_urls_from_menu_link w config root_gurl m = Inr links \<and> set links \<subseteq> set U"
    and "set gurls \<subseteq> set U" "set menus \<subseteq> set (root_gurl # get_menus U)"
      "distinct (map (key w) gurls)"
    and "length menus + (card (key w ` set U) - length gurls) < fuel"
  shows "\<exists>r. crawl_loop fuel w config root_gurl gurls menus depth expanded = Some (Inr r)"
  using assms(3-)
proof (induction fuel arbitrary: gurls menus depth expanded)
  case 0
  then show ?case by simp
next
  case (Suc fuel)
  show ?case
  proof (cases menus)
    case Nil
    then show ?thesis by simp
  next
    case (Cons menu rest)
    show ?thesis
    proof (cases "depth_exceeds depth (maxdepth config)")
      case True
      with Cons show ?thesis by simp
    next
      case False
      from Cons Suc.prems(2) have "menu \<in> set (root_gurl # get_menus U)" by auto
      with fin obtain links where links: "gopher_urls_from_menu_link w config root_gurl menu = Inr links"
          "set links \<subseteq> set U" by blast
      let ?d = "set_difference w (py_set w links) gurls"
      let ?g = "set_update w gurls ?d"
      let ?nm = "get_menus (set_order w ?d)"
      have geq: "?g = gurls @ ?d" by (rule grow_eq [OF Suc.prems(3)])
      have dsub: "set ?d \<subseteq> set U"
        using set_difference_subset [of w "py_set w links" gurls] py_set_subset [of w links] links(2)
        by blast
      have g1: "set ?g \<subseteq> set U" using geq dsub Suc.prems(1) by simp
      have "set ?nm \<subseteq> set (get_menus U)"
        using set_order_set [OF perm, of ?d] dsub by (auto simp: get_menus_def)
      then have g2: "set (rest @ ?nm) \<subseteq> set (root_gurl # get_menus U)"
        using Suc.prems(2) Cons by auto
      have g3: "distinct (map (key w) ?g)" by (rule set_update_distinct [OF Suc.prems(3)])
      have "length ?g = card (key w ` set ?g)"
        using distinct_card [OF g3] by simp
      also have "\<dots> \<le> card (key w ` set U)"
        by (intro card_mono) (use g1 in auto)
      finally have le: "length gurls + length ?d \<le> card (key w ` set U)" using geq by simp
      have nml: "length ?nm \<le> length ?d" by (rule get_menus_set_order_length [OF perm])
      have g4: "length (rest @ ?nm) + (card (key w ` set U) - length ?g) < fuel"
        using Suc.prems(4) Cons le nml geq by simp
      from Suc.IH [OF g1 g2 g3 g4]
      show ?thesis unfolding Cons crawl_loop_step [OF False links(1)] .
    qed
  qed
qed


section \<open>Properties of crawl\<close>

text \<open>
  Claim C2, amended.  Let the interpreter iterate over every set in some order of its
  members, and let \<open>crawl\<close> return.  Count, for each set identity (the key), how often a
  resource with that identity was passed to \<open>gopher_urls_from_menu_link\<close>.  For every
  identity other than the root's the count is at most one: a resource already in
  \<open>gurls\<close> is never queued again, and each worklist entry is processed once.  The root
  is expanded before the loop and again for each of its worklist entries, up to three
  times in all.
\<close>

theorem C2_expansions_per_resource:
  assumes "\<forall>xs. mset (set_order w xs) = mset xs"
    and "crawl fuel w config root_gurl = Some (Inr (gurls, expanded))"
  shows "\<forall>k. count_list (map (key w) expanded) k \<le> (if k = key w root_gurl then 3 else 1)"
proof -
  from assms(2) obtain links where links: "gopher_urls_from_menu_link w config root_gurl root_gurl = Inr links"
    by (cases "gopher_urls_from_menu_link w config root_gurl root_gurl") (auto simp: crawl_def)
  let ?g = "py_set w links"
  let ?init = "set_order w (py_set w (get_menus (set_order w ?g)))"
  let ?c = "\<lambda>k. if k = key w root_gurl then 2 else (0::nat)"
  from assms(2) links
  have loop: "crawl_loop fuel w config root_gurl ?g (?init @ [root_gurl]) 0 [root_gurl] = Some (Inr (gurls, expanded))"
    by (simp add: crawl_def Let_def)
  have dg: "distinct (map (key w) ?g)" by (rule py_set_distinct)
  have di: "distinct (map (key w) ?init)"
    by (rule set_order_distinct [OF assms(1) py_set_distinct])
  have "set ?init \<subseteq> set ?g"
    using set_order_set [OF assms(1), of "py_set w (get_menus (set_order w ?g))"]
      py_set_subset [of w "get_menus (set_order w ?g)"]
      get_menus_set_order_subset [OF assms(1), of ?g] by blast
  then have ki: "key w ` set ?init \<subseteq> key w ` set ?g" by blast
  have inv: "\<forall>k. count_list (map (key w) ([root_gurl] @ ?init @ [root_gurl])) k
            \<le> (if k \<in> key w ` set ?g then 1 else 0) + ?c k"
  proof
    fix k
    have "count_list (map (key w) ?init) k \<le> (if k \<in> key w ` set ?g then 1 else 0)"
      using distinct_count_list [OF di, of k] ki by auto
    then show "count_list (map (key w) ([root_gurl] @ ?init @ [root_gurl])) k
            \<le> (if k \<in> key w ` set ?g then 1 else 0) + ?c k"
      by simp
  qed
  have "\<forall>k. count_list (map (key w) expanded) k \<le> 1 + ?c k"
    by (rule crawl_loop_counts [OF assms(1) loop dg inv])
  then show ?thesis by (auto split: if_splits)
qed

text \<open>
  Claim C3, amended.  With \<open>maxdepth = 0\<close> the loop runs once: after expanding the root,
  \<open>crawl\<close> expands the first worklist entry (a menu among the root's children or, when
  there is none, the root again) and then stops, however many menus are queued.  It
  returns the root's children together with the children of that entry that were not yet
  present, unless one of the two expansions raises.  Two units of fuel suffice.
\<close>

theorem C3_maxdepth_zero_expands_one_entry:
  assumes "maxdepth config = Some 0"
  shows "crawl (Suc (Suc fuel)) w config root_gurl =
     (case gopher_urls_from_menu_link w config root_gurl root_gurl of
        Inl e \<Rightarrow> Some (Inl e)
      | Inr links \<Rightarrow>
          let gurls = py_set w links;
              first = hd (set_order w (py_set w (get_menus (set_order w gurls))) @ [root_gurl])
          in case gopher_urls_from_menu_link w config root_gurl first of
               Inl e \<Rightarrow> Some (Inl e)
             | Inr links1 \<Rightarrow>
                 Some (Inr (set_update w gurls (set_difference w (py_set w links1) gurls),
                            [root_gurl, first])))"
proof (cases "gopher_urls_from_menu_link w config root_gurl root_gurl")
  case (Inl e)
  then show ?thesis by (simp add: crawl_def)
next
  case (Inr links)
  let ?g = "py_set w links"
  let ?menus = "set_order w (py_set w (get_menus (set_order w ?g))) @ [root_gurl]"
  obtain first rest where menus: "?menus = first # rest" by (cases ?menus) auto
  then have first: "hd ?menus = first" by simp
  have d0: "\<not> depth_exceeds 0 (maxdepth config)" using assms by (simp add: depth_exceeds_def)
  have d1: "depth_exceeds (Suc 0) (maxdepth config)" using assms by (simp add: depth_exceeds_def)
  have stop: "crawl_loop (Suc fuel) w config root_gurl g q (Suc 0) ex = Some (Inr (g, ex))" for g q ex
    using d1 by (cases q) simp_all
  show ?thesis
  proof (cases "gopher_urls_from_menu_link w config root_gurl first")
    case (Inl e)
    with Inr menus first d0 show ?thesis by (simp add: crawl_def Let_def)
  next
    case (Inr links1)
    have "crawl (Suc (Suc fuel)) w config root_gurl
            = crawl_loop (Suc (Suc fuel)) w config root_gurl ?g (first # rest) 0 [root_gurl]"
      using \<open>gopher_urls_from_menu_link w config root_gurl root_gurl = Inr links\<close> menus
      by (simp add: crawl_def Let_def)
    also have "\<dots> = Some (Inr (set_update w ?g (set_difference w (py_set w links1) ?g), [root_gurl, first]))"
      unfolding crawl_loop_step [OF d0 Inr] stop by simp
    finally show ?thesis
      using \<open>gopher_urls_from_menu_link w config root_gurl root_gurl = Inr links\<close> Inr first
      by (simp add: Let_def)
  qed
qed

text \<open>
  Claim C4, amended.  When \<open>crawl\<close> returns, its result contains every resource returned
  by an expansion it performed (as a member of the set), every member of the result was
  returned by such an expansion, and therefore the result contains the root exactly when
  an expanded menu lists a resource that is the same set member as the root.  The
  set is seeded with the root's children only; the root goes to the worklist.
\<close>

theorem C4_crawl_returns_discovered_resources:
  assumes "crawl fuel w config root_gurl = Some (Inr (gurls, expanded))"
  shows "(\<forall>m\<in>set expanded. \<forall>links. gopher_urls_from_menu_link w config root_gurl m = Inr links
            \<longrightarrow> (\<forall>g\<in>set links. set_contains w gurls g))
       \<and> (\<forall>g\<in>set gurls. \<exists>m\<in>set expanded. \<exists>links.
            gopher_urls_from_menu_link w config root_gurl m = Inr links \<and> g \<in> set links)
       \<and> (set_contains w gurls root_gurl =
            (\<exists>m\<in>set expanded. \<exists>links. gopher_urls_from_menu_link w config root_gurl m = Inr links
                \<and> (\<exists>g\<in>set links. same_member w g root_gurl)))"
proof -
  from assms obtain links where links: "gopher_urls_from_menu_link w config root_gurl root_gurl = Inr links"
    by (cases "gopher_urls_from_menu_link w config root_gurl root_gurl") (auto simp: crawl_def)
  let ?g = "py_set w links"
  let ?menus = "set_order w (py_set w (get_menus (set_order w ?g))) @ [root_gurl]"
  from assms links
  have loop: "crawl_loop fuel w config root_gurl ?g ?menus 0 [root_gurl] = Some (Inr (gurls, expanded))"
    by (simp add: crawl_def Let_def)
  have i1: "\<forall>m\<in>set [root_gurl]. \<forall>ls. gopher_urls_from_menu_link w config root_gurl m = Inr ls
           \<longrightarrow> (\<forall>g\<in>set ls. set_contains w ?g g)"
    using links by (auto intro: py_set_contains)
  have i2: "\<forall>g\<in>set ?g. \<exists>m\<in>set [root_gurl]. \<exists>ls.
            gopher_urls_from_menu_link w config root_gurl m = Inr ls \<and> g \<in> set ls"
    using links py_set_subset [of w links] by auto
  have a: "\<forall>m\<in>set expanded. \<forall>links. gopher_urls_from_menu_link w config root_gurl m = Inr links
            \<longrightarrow> (\<forall>g\<in>set links. set_contains w gurls g)"
    by (rule crawl_loop_discovered [OF loop i1])
  have b: "\<forall>g\<in>set gurls. \<exists>m\<in>set expanded. \<exists>links.
            gopher_urls_from_menu_link w config root_gurl m = Inr links \<and> g \<in> set links"
    by (rule crawl_loop_only_discovered [OF loop i2])
  have c: "set_contains w gurls root_gurl =
            (\<exists>m\<in>set expanded. \<exists>links. gopher_urls_from_menu_link w config root_gurl m = Inr links
                \<and> (\<exists>g\<in>set links. same_member w g root_gurl))"
  proof
    assume "set_contains w gurls root_gurl"
    then obtain y where y: "y \<in> set gurls" "same_member w y root_gurl"
      by (auto simp: set_contains_def list_ex_iff)
    with b show "\<exists>m\<in>set expanded. \<exists>links. gopher_urls_from_menu_link w config root_gurl m = Inr links
                \<and> (\<exists>g\<in>set links. same_member w g root_gurl)" by blast
  next
    assume "\<exists>m\<in>set expanded. \<exists>links. gopher_urls_from_menu_link w config root_gurl m = Inr links
                \<and> (\<exists>g\<in>set links. same_member w g root_gurl)"
    then obtain m ls g where "m \<in> set expanded" "gopher_urls_from_menu_link w config root_gurl m = Inr ls"
        "g \<in> set ls" and sm: "same_member w g root_gurl" by blast
    with a have "set_contains w gurls g" by blast
    then have "key w g \<in> key w ` set gurls" by (simp add: set_contains_key)
    moreover from sm have "key w g = key w root_gurl" by (simp add: same_member_key)
    ultimately show "set_contains w gurls root_gurl" by (simp add: set_contains_key)
  qed
  from a b c show ?thesis by blast
qed

text \<open>Termination on a finite site, for any root and any depth bound: if every menu of
  the finite list \<open>U\<close> and the root expand without raising to resources of \<open>U\<close>, then
  \<open>crawl\<close> returns once the fuel exceeds the length of \<open>U\<close> by two.\<close>

lemma crawl_terminates_on_finite_graph:
  assumes perm: "\<forall>xs. mset (set_order w xs) = mset xs"
    and fin: "\<forall>m\<in>set (root_gurl # get_menus U). \<exists>links.
               gopher_urls_from_menu_link w config root_gurl m = Inr links \<and> set links \<subseteq> set U"
    and fuel: "length U + 2 \<le> fuel"
  shows "\<exists>gurls expanded. crawl fuel w config root_gurl = Some (Inr (gurls, expanded))
           \<and> distinct (map (key w) gurls)"
proof -
  from fin obtain links where la: "gopher_urls_from_menu_link w config root_gurl root_gurl = Inr links"
    and subU: "set links \<subseteq> set U" by auto
  let ?g = "py_set w links"
  let ?ms = "get_menus (set_order w ?g)"
  let ?init = "set_order w (py_set w ?ms)"
  have dg: "distinct (map (key w) ?g)" by (rule py_set_distinct)
  have dms: "distinct (map (key w) ?ms)" by (rule get_menus_set_order_distinct [OF perm dg])
  have pms: "py_set w ?ms = ?ms" by (rule py_set_distinct_id [OF dms])
  have gU: "set ?g \<subseteq> set U" using py_set_subset [of w links] subU by blast
  have init_set: "set ?init = set ?ms" using set_order_set [OF perm] pms by simp
  have ms_set: "set ?ms = {x \<in> set ?g. is_menu x}"
    using set_order_set [OF perm, of ?g] by (auto simp: get_menus_def)
  have menusU: "set (?init @ [root_gurl]) \<subseteq> set (root_gurl # get_menus U)"
    using init_set ms_set gU by (auto simp: get_menus_def)
  have "length ?init \<le> length ?g"
    using set_order_length [OF perm, of ?ms] pms get_menus_set_order_length [OF perm, of ?g]
    by simp
  moreover have "length ?g \<le> card (key w ` set U)"
  proof -
    have "length ?g = card (key w ` set ?g)" using distinct_card [OF dg] by simp
    also have "\<dots> \<le> card (key w ` set U)" by (intro card_mono) (use gU in auto)
    finally show ?thesis .
  qed
  moreover have "card (key w ` set U) \<le> length U"
    using card_image_le [of "set U" "key w"] card_length [of U] by simp
  ultimately have m: "length (?init @ [root_gurl]) + (card (key w ` set U) - length ?g) < fuel"
    using fuel by simp
  from crawl_loop_terminates [OF perm fin gU menusU dg m]
  obtain gurls expanded where
    loop: "crawl_loop fuel w config root_gurl ?g (?init @ [root_gurl]) 0 [root_gurl]
             = Some (Inr (gurls, expanded))"
    by fastforce
  then have "crawl fuel w config root_gurl = Some (Inr (gurls, expanded))"
    using la by (simp add: crawl_def Let_def)
  moreover have "distinct (map (key w) gurls)" by (rule crawl_loop_distinct [OF loop dg])
  ultimately show ?thesis by blast
qed


section \<open>crawl on the example sites\<close>

lemma tree_world_order: "\<forall>xs. mset (set_order tree_world xs) = mset xs"
  by (simp add: tree_world_def)


lemma tree_world_crawl:
  "crawl 5 tree_world default_config example_root =
     Some (Inr ([sub_gurl, file_gurl, other_gurl], [example_root, sub_gurl, example_root]))"
  by code_simp

lemma tree_world_root_links:
  "gopher_urls_from_menu_link tree_world default_config example_root example_root
     = Inr [sub_gurl, file_gurl]"
  by code_simp

lemma tree_world_sub_links:
  "gopher_urls_from_menu_link tree_world default_config example_root sub_gurl
     = Inr [other_gurl]"
  by code_simp




text \<open>Against claim C2 as stated: on the site with a link back to the root, the root is
  expanded three times (twice as the very same object).\<close>

theorem C2_root_expanded_three_times:
  "crawl 6 cycle_world default_config example_root =
     Some (Inr ([sub_gurl, file_gurl, root_link_gurl, other_gurl],
                [example_root, sub_gurl, example_root, root_link_gurl]))
   \<and> count_list [example_root, sub_gurl, example_root, root_link_gurl] example_root = 2
   \<and> count_list (map (key cycle_world) [example_root, sub_gurl, example_root, root_link_gurl])
        (key cycle_world example_root) = 3"
  by code_simp

text \<open>The amended claim C2 on the site without a back link.\<close>

theorem C2_expansions_per_resource_witness:
  "crawl 5 tree_world default_config example_root =
     Some (Inr ([sub_gurl, file_gurl, other_gurl], [example_root, sub_gurl, example_root]))
   \<and> count_list (map (key tree_world) [example_root, sub_gurl, example_root])
        (key tree_world sub_gurl) \<le> 1
   \<and> count_list (map (key tree_world) [example_root, sub_gurl, example_root])
        (key tree_world example_root) \<le> 3"
proof -
  have ne: "key tree_world sub_gurl \<noteq> key tree_world example_root" by code_simp
  from C2_expansions_per_resource [OF tree_world_order tree_world_crawl]
  have a: "\<forall>k. count_list (map (key tree_world) [example_root, sub_gurl, example_root]) k
         \<le> (if k = key tree_world example_root then 3 else 1)" .
  from a [rule_format, of "key tree_world sub_gurl"] a [rule_format, of "key tree_world example_root"] ne
    tree_world_crawl
  show ?thesis by simp
qed

text \<open>Against claim C3 as stated: with \<open>maxdepth = 0\<close> the menu \<open>/sub\<close> is expanded,
  and the result holds \<open>/sub/o.txt\<close>, which is not a child of the root.\<close>

theorem C3_maxdepth_zero_expands_a_child_menu:
  "gopher_urls_from_menu_link cycle_world depth0_config example_root example_root
     = Inr [sub_gurl, file_gurl]
   \<and> crawl 5 cycle_world depth0_config example_root =
       Some (Inr ([sub_gurl, file_gurl, root_link_gurl, other_gurl], [example_root, sub_gurl]))
   \<and> other_gurl \<notin> set [sub_gurl, file_gurl]"
  by code_simp

text \<open>The amended claim C3 on the site without a back link.\<close>

theorem C3_maxdepth_zero_expands_one_entry_witness:
  "maxdepth depth0_config = Some 0
   \<and> crawl (Suc (Suc 0)) tree_world depth0_config example_root =
       Some (Inr ([sub_gurl, file_gurl, other_gurl], [example_root, sub_gurl]))"
proof -
  have m: "maxdepth depth0_config = Some 0" by (simp add: depth0_config_def)
  have r: "gopher_urls_from_menu_link tree_world depth0_config example_root example_root
     = Inr [sub_gurl, file_gurl]" by code_simp
  have f: "hd (set_order tree_world (py_set tree_world
             (get_menus (set_order tree_world (py_set tree_world [sub_gurl, file_gurl]))))
             @ [example_root]) = sub_gurl" by code_simp
  have s: "gopher_urls_from_menu_link tree_world depth0_config example_root sub_gurl
     = Inr [other_gurl]" by code_simp
  have u: "set_update tree_world (py_set tree_world [sub_gurl, file_gurl])
             (set_difference tree_world (py_set tree_world [other_gurl])
                (py_set tree_world [sub_gurl, file_gurl]))
           = [sub_gurl, file_gurl, other_gurl]" by code_simp
  from C3_maxdepth_zero_expands_one_entry [OF m, of 0 tree_world example_root] m
  show ?thesis by (simp add: r f s u Let_def)
qed

text \<open>Against claim C4 as stated: no menu of the site without a back link lists the root,
  and the result does not contain it.\<close>

theorem C4_result_without_root:
  "crawl 5 tree_world default_config example_root =
     Some (Inr ([sub_gurl, file_gurl, other_gurl], [example_root, sub_gurl, example_root]))
   \<and> example_root \<notin> set [sub_gurl, file_gurl, other_gurl]
   \<and> \<not> set_contains tree_world [sub_gurl, file_gurl, other_gurl] example_root"
  by code_simp

text \<open>The amended claim C4 on the same site.\<close>

theorem C4_crawl_returns_discovered_resources_witness:
  "crawl 5 tree_world default_config example_root =
     Some (Inr ([sub_gurl, file_gurl, other_gurl], [example_root, sub_gurl, example_root]))
   \<and> set_contains tree_world [sub_gurl, file_gurl, other_gurl] other_gurl
   \<and> \<not> set_contains tree_world [sub_gurl, file_gurl, other_gurl] example_root"
proof -
  note t = C4_crawl_returns_discovered_resources [OF tree_world_crawl]
  from t have a: "\<forall>m\<in>set [example_root, sub_gurl, example_root]. \<forall>links.
       gopher_urls_from_menu_link tree_world default_config example_root m = Inr links
       \<longrightarrow> (\<forall>g\<in>set links. set_contains tree_world [sub_gurl, file_gurl, other_gurl] g)"
    by blast
  from a tree_world_sub_links
  have 1: "set_contains tree_world [sub_gurl, file_gurl, other_gurl] other_gurl" by simp
  from t have c: "set_contains tree_world [sub_gurl, file_gurl, other_gurl] example_root =
     (\<exists>m\<in>set [example_root, sub_gurl, example_root]. \<exists>links.
        gopher_urls_from_menu_link tree_world default_config example_root m = Inr links
        \<and> (\<exists>g\<in>set links. same_member tree_world g example_root))"
    by blast
  have s1: "\<not> same_member tree_world sub_gurl example_root" by code_simp
  have s2: "\<not> same_member tree_world file_gurl example_root" by code_simp
  have s3: "\<not> same_member tree_world other_gurl example_root" by code_simp
  have 2: "\<not> set_contains tree_world [sub_gurl, file_gurl, other_gurl] example_root"
    unfolding c using s1 s2 s3 by (auto simp: tree_world_root_links tree_world_sub_links)
  from 1 2 tree_world_crawl show ?thesis by simp
qed


end
